theory Spec2Isabelle
  imports Complex_Main "HOL-Library.Log_Nat"
begin

section \<open>Texture sampling and mip-map generation (src/scene/texture.cpp)\<close>

text \<open>
  The development embeds the functions of \<^verbatim>\<open>texture.cpp\<close> as HOL functions.
  Conventions of the embedding:
  \<^item> \<^verbatim>\<open>float\<close> values are modelled as \<^typ>\<open>real\<close>: arithmetic is exact, there is no
    rounding, no NaN and no infinity. A conversion from \<^verbatim>\<open>float\<close> to \<^verbatim>\<open>int\<close> truncates
    toward zero;
  \<^item> \<^verbatim>\<open>uint32_t\<close> dimensions are \<^typ>\<open>nat\<close>, \<^verbatim>\<open>int\<close>/\<^verbatim>\<open>int32_t\<close> coordinates are
    \<^typ>\<open>int\<close>. The only wrap-around the code relies on, \<^verbatim>\<open>static_cast<int>(image.w - 1)\<close>
    and \<^verbatim>\<open>static_cast<int>(levels.size() - 1)\<close> at zero, yields \<open>-1\<close>, which is what
    the integer subtraction of the model gives;
  \<^item> every way the C++ can leave the defined behaviour is a value of \<open>error\<close>: a
    pixel access outside the buffer, a vector index outside the level sequence, a
    failed \<^verbatim>\<open>assert\<close>. Functions return \<open>error + 'a\<close>, with \<open>Inl\<close> the error.
\<close>

subsection \<open>Data model\<close>

datatype error = OutOfRange | LevelOutOfRange | AssertionFailed

definition bind_err :: "error + 'a \<Rightarrow> ('a \<Rightarrow> error + 'b) \<Rightarrow> error + 'b" where
  "bind_err m f = (case m of Inl e \<Rightarrow> Inl e | Inr x \<Rightarrow> f x)"

fun fold_err :: "('a \<Rightarrow> 's \<Rightarrow> error + 's) \<Rightarrow> 'a list \<Rightarrow> 's \<Rightarrow> error + 's" where
  "fold_err f [] s = Inr s"
| "fold_err f (x # xs) s = bind_err (f x s) (fold_err f xs)"

text \<open>\<^verbatim>\<open>Spectrum\<close>: a triple of channel intensities with componentwise arithmetic.\<close>

datatype Spectrum = Spectrum real real real

definition Spectrum_zero :: Spectrum where
  "Spectrum_zero = Spectrum 0 0 0"

fun Spectrum_add :: "Spectrum \<Rightarrow> Spectrum \<Rightarrow> Spectrum" where
  "Spectrum_add (Spectrum r1 g1 b1) (Spectrum r2 g2 b2) = Spectrum (r1 + r2) (g1 + g2) (b1 + b2)"

fun Spectrum_scale :: "Spectrum \<Rightarrow> real \<Rightarrow> Spectrum" where
  "Spectrum_scale (Spectrum r1 g1 b1) s = Spectrum (r1 * s) (g1 * s) (b1 * s)"

fun Spectrum_div :: "Spectrum \<Rightarrow> real \<Rightarrow> Spectrum" where
  "Spectrum_div (Spectrum r1 g1 b1) s = Spectrum (r1 / s) (g1 / s) (b1 / s)"

datatype Vec2 = Vec2 real real

text \<open>
  \<^verbatim>\<open>HDR_Image\<close> is declared outside \<^verbatim>\<open>src/\<close>; the record follows the data model of the
  specification: dimensions \<open>(w, h)\<close> and a row-major buffer of \<open>w * h\<close> colours.
\<close>

record HDR_Image =
  w :: nat
  h :: nat
  pixels :: "Spectrum list"

definition wf_image :: "HDR_Image \<Rightarrow> bool" where
  "wf_image img = (length (pixels img) = w img * h img)"

text \<open>
  Modelled from the spec: \<^verbatim>\<open>HDR_Image::at\<close> (declared in \<^verbatim>\<open>hdr_image.h\<close>, not under
  \<^verbatim>\<open>src/\<close>). Pixel Buffer access \<open>at(x, y)\<close> with \<open>x \<in> [0, w)\<close>, \<open>y \<in> [0, h)\<close>, row-major;
  an access outside that range is a contract violation, here the value \<open>Inl OutOfRange\<close>.
  The buffer of an image has \<open>w * h\<close> entries (\<open>wf_image\<close>); for a record that breaks this
  invariant an index beyond the buffer is \<open>Inl OutOfRange\<close> as well.
  (The name \<open>at\<close> is a constant of HOL, hence \<open>at_xy\<close>.)
\<close>

definition at_xy :: "HDR_Image \<Rightarrow> int \<Rightarrow> int \<Rightarrow> error + Spectrum" where
  "at_xy img x y =
     (if 0 \<le> x \<and> x < int (w img) \<and> 0 \<le> y \<and> y < int (h img) \<and>
         nat y * w img + nat x < length (pixels img)
      then Inr (pixels img ! (nat y * w img + nat x))
      else Inl OutOfRange)"

text \<open>The mutable form of \<open>at\<close>, used as \<^verbatim>\<open>dst.at(x, y) = v\<close>.\<close>

definition at_put :: "HDR_Image \<Rightarrow> int \<Rightarrow> int \<Rightarrow> Spectrum \<Rightarrow> error + HDR_Image" where
  "at_put img x y v =
     (if 0 \<le> x \<and> x < int (w img) \<and> 0 \<le> y \<and> y < int (h img) \<and>
         nat y * w img + nat x < length (pixels img)
      then Inr (img\<lparr>pixels := (pixels img)[nat y * w img + nat x := v]\<rparr>)
      else Inl OutOfRange)"

text \<open>
  Modelled from the spec: the constructor \<^verbatim>\<open>HDR_Image(w, h)\<close> (not under \<^verbatim>\<open>src/\<close>): a
  width/height pair yields a zero-initialised buffer of that size.
\<close>

definition HDR_Image_new :: "nat \<Rightarrow> nat \<Rightarrow> HDR_Image" where
  "HDR_Image_new width height =
     \<lparr>w = width, h = height, pixels = replicate (width * height) Spectrum_zero\<rparr>"

text \<open>\<^verbatim>\<open>std::clamp(v, lo, hi)\<close>: \<open>lo\<close> if \<open>v < lo\<close>, \<open>hi\<close> if \<open>hi < v\<close>, otherwise \<open>v\<close>.\<close>

definition clamp :: "'a::linorder \<Rightarrow> 'a \<Rightarrow> 'a \<Rightarrow> 'a" where
  "clamp v lo hi = (if v < lo then lo else if hi < v then hi else v)"

text \<open>Conversion of a \<^verbatim>\<open>float\<close> to \<^verbatim>\<open>int\<close>: truncation toward zero.\<close>

definition float_to_int :: "real \<Rightarrow> int" where
  "float_to_int v = (if 0 \<le> v then \<lfloor>v\<rfloor> else \<lceil>v\<rceil>)"

subsection \<open>Samplers\<close>

fun sample_nearest :: "HDR_Image \<Rightarrow> Vec2 \<Rightarrow> error + Spectrum" where
  "sample_nearest img (Vec2 ux uy) =
     (let x = real (w img) * clamp ux 0 1;
          y = real (h img) * clamp uy 0 1;
          ix = \<lfloor>x\<rfloor>;
          iy = \<lfloor>y\<rfloor>;
          ix' = min ix (int (w img) - 1);
          iy' = min iy (int (h img) - 1)
      in at_xy img ix' iy')"

definition LEFT_UP :: "(int \<times> int) list" where
  "LEFT_UP = [(-1, 1), (0, 1), (0, 0), (-1, 0)]"

definition LEFT_DOWN :: "(int \<times> int) list" where
  "LEFT_DOWN = [(-1, 0), (0, 0), (0, -1), (-1, -1)]"

definition RIGHT_UP :: "(int \<times> int) list" where
  "RIGHT_UP = [(0, 1), (1, 1), (1, 0), (0, 0)]"

definition RIGHT_DOWN :: "(int \<times> int) list" where
  "RIGHT_DOWN = [(0, 0), (1, 0), (1, -1), (0, -1)]"

definition CENTER :: "(int \<times> int) list" where
  "CENTER = [(-1, 0), (0, 0), (0, -1), (-1, -1)]"

definition OFFSETS :: "(int \<times> int) list list" where
  "OFFSETS = [LEFT_UP, LEFT_DOWN, RIGHT_UP, RIGHT_DOWN, CENTER]"

text \<open>The body of the loop over the four offsets: one clamped read, weighted by \<open>0.25\<close>.\<close>

definition bilinear_step ::
  "HDR_Image \<Rightarrow> int \<Rightarrow> int \<Rightarrow> int \<times> int \<Rightarrow> Spectrum \<Rightarrow> error + Spectrum" where
  "bilinear_step img iw ih offset res =
     (let sample_pos =
            (clamp (max (iw + fst offset) 0) 0 (int (w img) - 1),
             clamp (max (ih + snd offset) 0) 0 (int (h img) - 1))
      in bind_err (at_xy img (fst sample_pos) (snd sample_pos))
           (\<lambda>c. Inr (Spectrum_add res (Spectrum_scale c (1 / 4)))))"

fun sample_bilinear :: "HDR_Image \<Rightarrow> Vec2 \<Rightarrow> error + Spectrum" where
  "sample_bilinear img (Vec2 ux uy) =
     (let iw = float_to_int (real (w img) * ux);
          ih = float_to_int (real (h img) * uy);
          fw = real (w img) * ux - real_of_int iw;
          fh = real (h img) * uy - real_of_int ih;
          offset_index = (if fw > 1 / 2 then 2 else 0);
          offset_index' = (if fh < 1 / 2 then offset_index + 1 else offset_index);
          sample_offset = OFFSETS ! offset_index'
      in fold_err (bilinear_step img iw ih) sample_offset Spectrum_zero)"

text \<open>\<^verbatim>\<open>levels[i]\<close>: an index outside the vector is undefined behaviour in C++.\<close>

definition level_at :: "HDR_Image list \<Rightarrow> int \<Rightarrow> error + HDR_Image" where
  "level_at levels i =
     (if 0 \<le> i \<and> i < int (length levels) then Inr (levels ! nat i) else Inl LevelOutOfRange)"

definition sample_trilinear ::
  "HDR_Image \<Rightarrow> HDR_Image list \<Rightarrow> Vec2 \<Rightarrow> real \<Rightarrow> error + Spectrum" where
  "sample_trilinear base levels uv lod =
     (if lod \<le> 0 then sample_bilinear base uv
      else
        let floor_i = max 0 (float_to_int lod);
            ceil_i = min (int (length levels) - 1) (float_to_int (lod + 1));
            a = lod - real_of_int floor_i;
            b = real_of_int ceil_i - lod
        in if a = 0
           then bind_err (level_at levels (float_to_int lod)) (\<lambda>l. sample_bilinear l uv)
           else bind_err (level_at levels floor_i) (\<lambda>lf.
                bind_err (sample_bilinear lf uv) (\<lambda>sampled_floor.
                bind_err (level_at levels ceil_i) (\<lambda>lc.
                bind_err (sample_bilinear lc uv) (\<lambda>sampled_ceil.
                  Inr (Spectrum_add (Spectrum_scale sampled_floor (1 - a))
                                    (Spectrum_scale sampled_ceil (1 - b))))))))"

subsection \<open>Mip-map generation\<close>

text \<open>
  The allocation loop of \<^verbatim>\<open>generate_mipmap\<close>: the first argument counts the iterations
  that remain (\<open>num_levels - i\<close>); the state is \<open>(width, height, levels)\<close>.
\<close>

fun allocate_loop ::
  "nat \<Rightarrow> nat \<Rightarrow> nat \<Rightarrow> HDR_Image list \<Rightarrow> error + (nat \<times> nat \<times> HDR_Image list)" where
  "allocate_loop 0 width height lvls = Inr (width, height, lvls)"
| "allocate_loop (Suc k) width height lvls =
     (if width = 1 \<and> height = 1 then Inl AssertionFailed
      else
        let width' = max 1 (width div 2);
            height' = max 1 (height div 2)
        in allocate_loop k width' height' (lvls @ [HDR_Image_new width' height']))"

text \<open>
  The allocation block. \<^verbatim>\<open>std::log2(0)\<close> is \<open>-\<infinity>\<close>, whose conversion to \<^verbatim>\<open>int32_t\<close> is
  not a value \<open>\<ge> 0\<close> on any platform that defines it: the model lets the assertion
  \<^verbatim>\<open>num_levels >= 0\<close> fail there.
\<close>

definition allocate_levels :: "HDR_Image \<Rightarrow> error + HDR_Image list" where
  "allocate_levels base =
     (if max (w base) (h base) = 0 then Inl AssertionFailed
      else
        let num_levels = float_to_int (log 2 (real (max (w base) (h base))))
        in if \<not> num_levels \<ge> 0 then Inl AssertionFailed
           else bind_err (allocate_loop (nat num_levels) (w base) (h base) [])
                  (\<lambda>(width, height, lvls).
                     if \<not> (width = 1 \<and> height = 1) then Inl AssertionFailed
                     else if length lvls \<noteq> nat num_levels then Inl AssertionFailed
                     else Inr lvls))"

text \<open>
  The sum of the \<open>nx \<times> ny\<close> block of source texels at \<open>(x0, y0)\<close>: the doubly nested
  accumulation loops of \<^verbatim>\<open>downsample\<close>, the x offset outermost.
\<close>

definition sum_block :: "HDR_Image \<Rightarrow> int \<Rightarrow> int \<Rightarrow> nat \<Rightarrow> nat \<Rightarrow> error + Spectrum" where
  "sum_block src x0 y0 nx ny =
     fold_err (\<lambda>i. fold_err (\<lambda>j s. bind_err (at_xy src (x0 + int i) (y0 + int j))
                                      (\<lambda>c. Inr (Spectrum_add s c))) [0..<ny])
       [0..<nx] Spectrum_zero"

text \<open>One destination texel: the block sum divided by the number of samples.\<close>

definition put_average ::
  "HDR_Image \<Rightarrow> int \<Rightarrow> int \<Rightarrow> nat \<Rightarrow> nat \<Rightarrow> int \<Rightarrow> int \<Rightarrow> real \<Rightarrow> HDR_Image
     \<Rightarrow> error + HDR_Image" where
  "put_average src x0 y0 nx ny x y n dst =
     bind_err (sum_block src x0 y0 nx ny) (\<lambda>s. at_put dst x y (Spectrum_div s n))"

definition downsample_main :: "HDR_Image \<Rightarrow> int \<Rightarrow> int \<Rightarrow> HDR_Image \<Rightarrow> error + HDR_Image" where
  "downsample_main src dstW dstH dst =
     fold_err (\<lambda>x. fold_err (\<lambda>y. put_average src (2 * int x) (2 * int y) 2 2 (int x) (int y) 4)
                       [0..<nat dstH])
       [0..<nat dstW] dst"

definition downsample_last_column :: "HDR_Image \<Rightarrow> int \<Rightarrow> HDR_Image \<Rightarrow> error + HDR_Image" where
  "downsample_last_column src last_x dst =
     fold_err (\<lambda>j. put_average src (last_x * 2) (int j * 2) 3 2 last_x (int j) 6)
       [0..<h dst] dst"

definition downsample_last_row :: "HDR_Image \<Rightarrow> int \<Rightarrow> HDR_Image \<Rightarrow> error + HDR_Image" where
  "downsample_last_row src last_y dst =
     fold_err (\<lambda>i. put_average src (int i * 2) (last_y * 2) 2 3 (int i) last_y 6)
       [0..<w dst] dst"

definition downsample :: "HDR_Image \<Rightarrow> HDR_Image \<Rightarrow> error + HDR_Image" where
  "downsample src dst =
     (if max 1 (w src div 2) \<noteq> w dst then Inl AssertionFailed
      else if max 1 (h src div 2) \<noteq> h dst then Inl AssertionFailed
      else
        let dstW = (if w src mod 2 = 1 then int (w dst) - 1 else int (w dst));
            dstH = (if h src mod 2 = 1 then int (h dst) - 1 else int (h dst));
            last_x = int (w dst) - 1;
            last_y = int (h dst) - 1
        in bind_err (downsample_main src dstW dstH dst) (\<lambda>d1.
           bind_err (if w src mod 2 = 1 then downsample_last_column src last_x d1 else Inr d1) (\<lambda>d2.
           bind_err (if h src mod 2 = 1 then downsample_last_row src last_y d2 else Inr d2) (\<lambda>d3.
           if w src mod 2 = 1 \<and> h src mod 2 = 1
           then put_average src (last_x * 2) (last_y * 2) 3 3 last_x last_y 9 d3
           else Inr d3))))"

text \<open>
  The loop that fills the levels: the source of level \<open>0\<close> is the base, the source of
  level \<open>i\<close> is the filled level \<open>i - 1\<close>.
\<close>

fun fill_levels :: "HDR_Image \<Rightarrow> HDR_Image list \<Rightarrow> error + HDR_Image list" where
  "fill_levels src [] = Inr []"
| "fill_levels src (dst # rest) =
     bind_err (downsample src dst) (\<lambda>d.
     bind_err (fill_levels d rest) (\<lambda>ds. Inr (d # ds)))"

definition generate_mipmap :: "HDR_Image \<Rightarrow> error + HDR_Image list" where
  "generate_mipmap base = bind_err (allocate_levels base) (fill_levels base)"

subsection \<open>Textures\<close>

datatype Sampler = nearest | bilinear | trilinear

record Image =
  sampler :: Sampler
  image_hdr :: HDR_Image
  levels :: "HDR_Image list"

record Constant =
  color :: Spectrum
  scale :: real

datatype Texture = Texture_Image Image | Texture_Constant Constant

definition Image_evaluate :: "Image \<Rightarrow> Vec2 \<Rightarrow> real \<Rightarrow> error + Spectrum" where
  "Image_evaluate t uv lod =
     (if w (image_hdr t) = 0 \<and> h (image_hdr t) = 0 then Inr Spectrum_zero
      else if sampler t = nearest then sample_nearest (image_hdr t) uv
      else if sampler t = bilinear then sample_bilinear (image_hdr t) uv
      else sample_trilinear (image_hdr t) (levels t) uv lod)"

text \<open>\<^verbatim>\<open>Image::update_mipmap\<close>; an error of the generator aborts the update.\<close>

definition update_mipmap :: "Image \<Rightarrow> error + Image" where
  "update_mipmap t =
     (if sampler t = trilinear
      then bind_err (generate_mipmap (image_hdr t)) (\<lambda>ls. Inr (t\<lparr>levels := ls\<rparr>))
      else Inr (t\<lparr>levels := []\<rparr>))"

text \<open>The constructor \<^verbatim>\<open>Image::Image(sampler_, image_)\<close>; the copy of the image is its value.\<close>

definition Image_new :: "Sampler \<Rightarrow> HDR_Image \<Rightarrow> error + Image" where
  "Image_new sampler' image' =
     update_mipmap \<lparr>sampler = sampler', image_hdr = image', levels = []\<rparr>"

definition make_valid :: "Image \<Rightarrow> error + Image" where
  "make_valid t = update_mipmap t"

definition Constant_evaluate :: "Constant \<Rightarrow> Vec2 \<Rightarrow> real \<Rightarrow> Spectrum" where
  "Constant_evaluate t uv lod = Spectrum_scale (color t) (scale t)"

definition neq_Constant :: "Constant \<Rightarrow> Constant \<Rightarrow> bool" where
  "neq_Constant a b = (color a \<noteq> color b \<or> scale a \<noteq> scale b)"

text \<open>
  Modelled from the spec: \<^verbatim>\<open>operator!=\<close> on \<^verbatim>\<open>HDR_Image\<close> (not under \<^verbatim>\<open>src/\<close>) is deep
  content inequality of the image: dimensions and pixels.
\<close>

definition neq_HDR_Image :: "HDR_Image \<Rightarrow> HDR_Image \<Rightarrow> bool" where
  "neq_HDR_Image a b = (w a \<noteq> w b \<or> h a \<noteq> h b \<or> pixels a \<noteq> pixels b)"

definition neq_Image :: "Image \<Rightarrow> Image \<Rightarrow> bool" where
  "neq_Image a b = neq_HDR_Image (image_hdr a) (image_hdr b)"

text \<open>
  \<^verbatim>\<open>operator!=\<close> on \<^verbatim>\<open>Texture\<close>: when the two variants hold different alternatives the
  result is \<^verbatim>\<open>false\<close>; otherwise the alternative's own \<^verbatim>\<open>operator!=\<close> decides.
\<close>

fun neq_Texture :: "Texture \<Rightarrow> Texture \<Rightarrow> bool" where
  "neq_Texture (Texture_Image a) (Texture_Image b) = neq_Image a b"
| "neq_Texture (Texture_Constant a) (Texture_Constant b) = neq_Constant a b"
| "neq_Texture (Texture_Image a) (Texture_Constant b) = False"
| "neq_Texture (Texture_Constant a) (Texture_Image b) = False"

subsection \<open>The samplers as the specification words them\<close>

text \<open>
  The weighted bilinear interpolation of the specification (section 4.2), written from
  its words for comparison with \<open>sample_bilinear\<close>: texel centres at integer + 0.5,
  fractional weights \<open>tx\<close>, \<open>ty\<close>, each texel coordinate clamped independently.
\<close>

definition spec_texel :: "HDR_Image \<Rightarrow> int \<Rightarrow> int \<Rightarrow> error + Spectrum" where
  "spec_texel img x y =
     at_xy img (clamp x 0 (int (w img) - 1)) (clamp y 0 (int (h img) - 1))"

fun spec_bilinear :: "HDR_Image \<Rightarrow> Vec2 \<Rightarrow> error + Spectrum" where
  "spec_bilinear img (Vec2 ux uy) =
     (let cx = real (w img) * clamp ux 0 1 - 1 / 2;
          cy = real (h img) * clamp uy 0 1 - 1 / 2;
          x0 = \<lfloor>cx\<rfloor>; x1 = x0 + 1;
          y0 = \<lfloor>cy\<rfloor>; y1 = y0 + 1;
          tx = cx - real_of_int x0;
          ty = cy - real_of_int y0
      in bind_err (spec_texel img x0 y0) (\<lambda>t00.
         bind_err (spec_texel img x1 y0) (\<lambda>t10.
         bind_err (spec_texel img x0 y1) (\<lambda>t01.
         bind_err (spec_texel img x1 y1) (\<lambda>t11.
           Inr (Spectrum_add
                  (Spectrum_add (Spectrum_scale t00 ((1 - tx) * (1 - ty)))
                                (Spectrum_scale t10 (tx * (1 - ty))))
                  (Spectrum_add (Spectrum_scale t01 ((1 - tx) * ty))
                                (Spectrum_scale t11 (tx * ty)))))))))"

text \<open>
  The level blend of the specification (section 4.4) for \<open>lod > 0\<close>, written from its
  words over the bilinear sampler of the code: \<open>lo\<close> and \<open>hi\<close> clamped into
  \<open>[0, lastIndex]\<close>, weight \<open>frac = lod - lo\<close> toward the coarser level.
\<close>

definition spec_trilinear ::
  "HDR_Image \<Rightarrow> HDR_Image list \<Rightarrow> Vec2 \<Rightarrow> real \<Rightarrow> error + Spectrum" where
  "spec_trilinear base lvls uv lod =
     (if lod \<le> 0 then sample_bilinear base uv
      else
        let lastIndex = int (length lvls) - 1;
            lo = clamp \<lfloor>lod\<rfloor> 0 lastIndex;
            hi = clamp \<lceil>lod\<rceil> 0 lastIndex;
            frac = lod - real_of_int lo
        in bind_err (level_at lvls lo) (\<lambda>l_lo.
           bind_err (sample_bilinear l_lo uv) (\<lambda>s_lo.
           bind_err (level_at lvls hi) (\<lambda>l_hi.
           bind_err (sample_bilinear l_hi uv) (\<lambda>s_hi.
             Inr (Spectrum_add (Spectrum_scale s_lo (1 - frac))
                               (Spectrum_scale s_hi frac)))))))"

text \<open>
  The invariant of an \<^verbatim>\<open>Image\<close> texture: in trilinear mode the cached levels are the
  generator's output for the base image, in every other mode there are none.
\<close>

definition levels_valid :: "Image \<Rightarrow> bool" where
  "levels_valid t =
     (if sampler t = trilinear then generate_mipmap (image_hdr t) = Inr (levels t)
      else levels t = [])"

subsection \<open>The level schedule as the specification words it\<close>

text \<open>
  The halving schedule of the mip level sequence (specification, section 3): the
  dimensions of each level are \<open>max(1, floor(dim / 2))\<close> of its predecessor's, the
  predecessor of the first level having dimensions \<open>(width, height)\<close>.
\<close>

fun halving_chain :: "nat \<Rightarrow> nat \<Rightarrow> HDR_Image list \<Rightarrow> bool" where
  "halving_chain width height [] = True"
| "halving_chain width height (l # ls) =
     (w l = max 1 (width div 2) \<and> h l = max 1 (height div 2) \<and> halving_chain (w l) (h l) ls)"

text \<open>Two images of the same dimensions and buffer size.\<close>

definition same_shape :: "HDR_Image \<Rightarrow> HDR_Image \<Rightarrow> bool" where
  "same_shape a b = (w a = w b \<and> h a = h b \<and> length (pixels a) = length (pixels b))"

text \<open>
  The level schedule the specification states for a base image: \<open>floor(log2(max(w, h)))\<close>
  levels, each of the halved dimensions of its predecessor (the base for level 0), the
  last one, if any, of size 1 x 1.
\<close>

definition level_schedule :: "HDR_Image \<Rightarrow> HDR_Image list \<Rightarrow> bool" where
  "level_schedule base ls =
     (int (length ls) = \<lfloor>log 2 (real (max (w base) (h base)))\<rfloor> \<and>
      (\<forall>i < length ls.
         w (ls ! i) = max 1 (w (if i = 0 then base else ls ! (i - 1)) div 2) \<and>
         h (ls ! i) = max 1 (h (if i = 0 then base else ls ! (i - 1)) div 2)) \<and>
      (ls \<noteq> [] \<longrightarrow> w (last ls) = 1 \<and> h (last ls) = 1))"

subsection \<open>Predicates for the analysis of the downsample step\<close>

text \<open>An image all of whose texels are the colour \<open>c\<close>.\<close>

definition constant_image :: "Spectrum \<Rightarrow> HDR_Image \<Rightarrow> bool" where
  "constant_image c img = (wf_image img \<and> (\<forall>p \<in> set (pixels img). p = c))"

text \<open>
  The state of a destination \<open>d\<close> while \<open>downsample\<close> fills it: it keeps the shape of
  the allocated destination \<open>dst\<close>, and, when the source is constant (\<open>Q\<close>), the texels
  at the coordinates written so far (\<open>K\<close>) are \<open>c\<close>.
\<close>

definition filled ::
  "bool \<Rightarrow> Spectrum \<Rightarrow> HDR_Image \<Rightarrow> (nat \<times> nat) set \<Rightarrow> HDR_Image \<Rightarrow> bool" where
  "filled Q c dst K d =
     (same_shape d dst \<and>
      (Q \<longrightarrow> (\<forall>(x, y) \<in> K. x < w dst \<and> y < h dst \<longrightarrow> pixels d ! (y * w dst + x) = c)))"

section \<open>Properties\<close>

subsection \<open>Evaluation lemmas\<close>

lemma bind_err_Inl [simp]: "bind_err (Inl e) f = Inl e"
  by (simp add: bind_err_def)

lemma bind_err_Inr [simp]: "bind_err (Inr x) f = f x"
  by (simp add: bind_err_def)

lemma bind_err_eq_Inr:
  "bind_err m f = Inr y \<longleftrightarrow> (\<exists>x. m = Inr x \<and> f x = Inr y)"
  by (cases m) simp_all

lemma bind_err_eq_Inl:
  "bind_err m f = Inl e \<longleftrightarrow> m = Inl e \<or> (\<exists>x. m = Inr x \<and> f x = Inl e)"
  by (cases m) simp_all

text \<open>
  For a positive integer argument the truncated \<^verbatim>\<open>std::log2\<close> is the bit length minus
  one, which the kernel can compute.
\<close>

lemma float_to_int_log2:
  assumes "0 < n"
  shows "float_to_int (log 2 (real n)) = int (floorlog 2 n) - 1"
proof -
  have "0 \<le> log 2 (real n)" using assms by simp
  then show ?thesis using assms by (simp add: float_to_int_def floorlog_def)
qed

lemma allocate_levels_floorlog [code]:
  "allocate_levels base =
     (if max (w base) (h base) = 0 then Inl AssertionFailed
      else bind_err (allocate_loop (floorlog 2 (max (w base) (h base)) - 1) (w base) (h base) [])
             (\<lambda>(width, height, lvls).
                if \<not> (width = 1 \<and> height = 1) then Inl AssertionFailed
                else if length lvls \<noteq> floorlog 2 (max (w base) (h base)) - 1 then Inl AssertionFailed
                else Inr lvls))"
proof -
  define m where "m = max (w base) (h base)"
  show ?thesis
  proof (cases "m = 0")
    case True
    then show ?thesis unfolding allocate_levels_def m_def by simp
  next
    case False
    then have pos: "0 < m" by simp
    have fl: "float_to_int (log 2 (real m)) = int (floorlog 2 m) - 1"
      by (rule float_to_int_log2[OF pos])
    have "0 < floorlog 2 m"
      using pos by (simp add: floorlog_def)
    then have nn: "0 \<le> int (floorlog 2 m) - 1"
      and nat_eq: "nat (int (floorlog 2 m) - 1) = floorlog 2 m - 1"
      by simp_all
    show ?thesis
      unfolding allocate_levels_def Let_def m_def[symmetric] fl nat_eq
      using False nn by simp
  qed
qed

lemmas sampler_defs = float_to_int_def OFFSETS_def LEFT_UP_def LEFT_DOWN_def RIGHT_UP_def
  RIGHT_DOWN_def bilinear_step_def clamp_def at_xy_def Spectrum_zero_def level_at_def

subsection \<open>Comparison of textures\<close>

text \<open>
  C9: \<^verbatim>\<open>operator!=\<close> on two textures that hold different alternatives (one Image, one
  Constant, in either order) is false; on two Image textures it is the inequality of the
  base images alone (dimensions and pixels), so that two Image textures with the same
  base image compare as not unequal whatever their sampling modes and cached levels.
\<close>

theorem neq_Texture_alternatives:
  "\<not> neq_Texture (Texture_Image a) (Texture_Constant c) \<and>
   \<not> neq_Texture (Texture_Constant c) (Texture_Image a) \<and>
   (neq_Texture (Texture_Image a) (Texture_Image b) \<longleftrightarrow>
      w (image_hdr a) \<noteq> w (image_hdr b) \<or> h (image_hdr a) \<noteq> h (image_hdr b) \<or>
      pixels (image_hdr a) \<noteq> pixels (image_hdr b)) \<and>
   (image_hdr a = image_hdr b \<longrightarrow> \<not> neq_Texture (Texture_Image a) (Texture_Image b)) \<and>
   neq_Texture (Texture_Image (a\<lparr>sampler := s, levels := ls\<rparr>)) (Texture_Image b) =
     neq_Texture (Texture_Image a) (Texture_Image b)"
  by (simp add: neq_Image_def neq_HDR_Image_def)

theorem neq_Texture_alternatives_witness:
  "image_hdr \<lparr>sampler = nearest, image_hdr = \<lparr>w = 1, h = 1, pixels = [Spectrum 1 0 0]\<rparr>, levels = []\<rparr>
     = image_hdr \<lparr>sampler = bilinear, image_hdr = \<lparr>w = 1, h = 1, pixels = [Spectrum 1 0 0]\<rparr>, levels = []\<rparr>
   \<and> \<not> neq_Texture
         (Texture_Image \<lparr>sampler = nearest, image_hdr = \<lparr>w = 1, h = 1, pixels = [Spectrum 1 0 0]\<rparr>, levels = []\<rparr>)
         (Texture_Image \<lparr>sampler = bilinear, image_hdr = \<lparr>w = 1, h = 1, pixels = [Spectrum 1 0 0]\<rparr>, levels = []\<rparr>)"
  using neq_Texture_alternatives
    [where a = "\<lparr>sampler = nearest, image_hdr = \<lparr>w = 1, h = 1, pixels = [Spectrum 1 0 0]\<rparr>, levels = []\<rparr>"
       and b = "\<lparr>sampler = bilinear, image_hdr = \<lparr>w = 1, h = 1, pixels = [Spectrum 1 0 0]\<rparr>, levels = []\<rparr>"]
  by simp

subsection \<open>The level of detail in the nearest and bilinear modes\<close>

text \<open>
  C10: for an Image texture whose sampling mode is nearest or bilinear, the result of
  \<open>evaluate\<close> (a colour or an error) does not depend on \<open>lod\<close>.
\<close>

theorem Image_evaluate_lod_irrelevant:
  assumes "sampler t = nearest \<or> sampler t = bilinear"
  shows "Image_evaluate t uv lod1 = Image_evaluate t uv lod2"
  using assms by (auto simp: Image_evaluate_def)

theorem Image_evaluate_lod_irrelevant_witness:
  "(sampler \<lparr>sampler = bilinear, image_hdr = \<lparr>w = 2, h = 1, pixels = [Spectrum 0 0 0, Spectrum 1 1 1]\<rparr>, levels = []\<rparr> = nearest
    \<or> sampler \<lparr>sampler = bilinear, image_hdr = \<lparr>w = 2, h = 1, pixels = [Spectrum 0 0 0, Spectrum 1 1 1]\<rparr>, levels = []\<rparr> = bilinear)
   \<and> Image_evaluate \<lparr>sampler = bilinear, image_hdr = \<lparr>w = 2, h = 1, pixels = [Spectrum 0 0 0, Spectrum 1 1 1]\<rparr>, levels = []\<rparr>
        (Vec2 (3 / 4) (1 / 2)) 0
     = Image_evaluate \<lparr>sampler = bilinear, image_hdr = \<lparr>w = 2, h = 1, pixels = [Spectrum 0 0 0, Spectrum 1 1 1]\<rparr>, levels = []\<rparr>
        (Vec2 (3 / 4) (1 / 2)) 7"
  using Image_evaluate_lod_irrelevant
    [of "\<lparr>sampler = bilinear, image_hdr = \<lparr>w = 2, h = 1, pixels = [Spectrum 0 0 0, Spectrum 1 1 1]\<rparr>, levels = []\<rparr>"
        "Vec2 (3 / 4) (1 / 2)" 0 7]
  by simp

subsection \<open>Construction and revalidation\<close>

text \<open>
  C8: after construction and after \<open>make_valid\<close> the texture satisfies \<open>levels_valid\<close>:
  in trilinear mode the cached levels are the generator's output for the base image,
  otherwise they are empty. Construction stores the given image and mode, and
  \<open>make_valid\<close> leaves the base image and the mode unchanged. Neither operation fails
  except by a failure of the generator in trilinear mode, which it passes on.
\<close>

theorem levels_valid_after_update:
  "(\<forall>t. Image_new s img = Inr t \<longrightarrow> levels_valid t \<and> image_hdr t = img \<and> sampler t = s) \<and>
   (\<forall>t'. make_valid t0 = Inr t' \<longrightarrow>
      levels_valid t' \<and> image_hdr t' = image_hdr t0 \<and> sampler t' = sampler t0) \<and>
   (\<forall>e. Image_new s img = Inl e \<longrightarrow> s = trilinear \<and> generate_mipmap img = Inl e) \<and>
   (\<forall>e. make_valid t0 = Inl e \<longrightarrow>
      sampler t0 = trilinear \<and> generate_mipmap (image_hdr t0) = Inl e)"
  by (auto simp: Image_new_def make_valid_def update_mipmap_def levels_valid_def
      bind_err_eq_Inr bind_err_eq_Inl)

theorem levels_valid_after_update_witness:
  "Image_new trilinear \<lparr>w = 2, h = 2, pixels = [Spectrum 1 1 1, Spectrum 1 1 1, Spectrum 1 1 1, Spectrum 1 1 1]\<rparr>
     = Inr \<lparr>sampler = trilinear,
            image_hdr = \<lparr>w = 2, h = 2, pixels = [Spectrum 1 1 1, Spectrum 1 1 1, Spectrum 1 1 1, Spectrum 1 1 1]\<rparr>,
            levels = [\<lparr>w = 1, h = 1, pixels = [Spectrum 1 1 1]\<rparr>]\<rparr>
   \<and> levels_valid \<lparr>sampler = trilinear,
            image_hdr = \<lparr>w = 2, h = 2, pixels = [Spectrum 1 1 1, Spectrum 1 1 1, Spectrum 1 1 1, Spectrum 1 1 1]\<rparr>,
            levels = [\<lparr>w = 1, h = 1, pixels = [Spectrum 1 1 1]\<rparr>]\<rparr>
   \<and> make_valid \<lparr>sampler = bilinear,
            image_hdr = \<lparr>w = 1, h = 1, pixels = [Spectrum 1 0 0]\<rparr>,
            levels = [\<lparr>w = 1, h = 1, pixels = [Spectrum 1 1 1]\<rparr>]\<rparr>
     = Inr \<lparr>sampler = bilinear, image_hdr = \<lparr>w = 1, h = 1, pixels = [Spectrum 1 0 0]\<rparr>, levels = []\<rparr>
   \<and> levels_valid \<lparr>sampler = bilinear, image_hdr = \<lparr>w = 1, h = 1, pixels = [Spectrum 1 0 0]\<rparr>, levels = []\<rparr>"
proof -
  have new: "Image_new trilinear \<lparr>w = 2, h = 2, pixels = [Spectrum 1 1 1, Spectrum 1 1 1, Spectrum 1 1 1, Spectrum 1 1 1]\<rparr>
     = Inr \<lparr>sampler = trilinear,
            image_hdr = \<lparr>w = 2, h = 2, pixels = [Spectrum 1 1 1, Spectrum 1 1 1, Spectrum 1 1 1, Spectrum 1 1 1]\<rparr>,
            levels = [\<lparr>w = 1, h = 1, pixels = [Spectrum 1 1 1]\<rparr>]\<rparr>"
    by code_simp
  have mv: "make_valid \<lparr>sampler = bilinear,
            image_hdr = \<lparr>w = 1, h = 1, pixels = [Spectrum 1 0 0]\<rparr>,
            levels = [\<lparr>w = 1, h = 1, pixels = [Spectrum 1 1 1]\<rparr>]\<rparr>
     = Inr \<lparr>sampler = bilinear, image_hdr = \<lparr>w = 1, h = 1, pixels = [Spectrum 1 0 0]\<rparr>, levels = []\<rparr>"
    by code_simp
  show ?thesis
    using new mv
      levels_valid_after_update
        [where s = trilinear
           and img = "\<lparr>w = 2, h = 2, pixels = [Spectrum 1 1 1, Spectrum 1 1 1, Spectrum 1 1 1, Spectrum 1 1 1]\<rparr>"
           and ?t0.0 = "\<lparr>sampler = bilinear,
              image_hdr = \<lparr>w = 1, h = 1, pixels = [Spectrum 1 0 0]\<rparr>,
              levels = [\<lparr>w = 1, h = 1, pixels = [Spectrum 1 1 1]\<rparr>]\<rparr>"]
    by simp
qed

subsection \<open>The bilinear sampler against weighted interpolation\<close>

text \<open>
  C1 (the code departs from the claim): on the 2 x 1 image with texels black and white,
  at \<open>uv = (3/4, 1/2)\<close>, the centre of the white texel, weighted bilinear interpolation
  gives white, and \<open>sample_bilinear\<close> gives the equal-weight average of the four texels
  of a quadrant, which is grey.
\<close>

theorem sample_bilinear_equal_weights:
  "sample_bilinear \<lparr>w = 2, h = 1, pixels = [Spectrum 0 0 0, Spectrum 1 1 1]\<rparr> (Vec2 (3 / 4) (1 / 2))
     = Inr (Spectrum (1 / 2) (1 / 2) (1 / 2))
   \<and> spec_bilinear \<lparr>w = 2, h = 1, pixels = [Spectrum 0 0 0, Spectrum 1 1 1]\<rparr> (Vec2 (3 / 4) (1 / 2))
     = Inr (Spectrum 1 1 1)"
  by (simp add: sampler_defs spec_texel_def)

subsection \<open>The trilinear sampler above the last level\<close>

text \<open>
  C2 (the code departs from the claim): for the 2 x 2 white base image the generator yields
  one 1 x 1 white level, so \<open>lastIndex = 0\<close>. At \<open>lod = 1/2\<close> the claim's blend is the
  white of that level, and \<open>sample_trilinear\<close> returns twice that colour (its second
  weight is \<open>1 - (ceil - lod)\<close> with \<open>ceil\<close> clamped to \<open>0\<close>). At \<open>lod = 1\<close> the claim's
  blend is again white, and \<open>sample_trilinear\<close> indexes \<open>levels[1]\<close>, outside the sequence.
\<close>

theorem sample_trilinear_above_last_level:
  "generate_mipmap \<lparr>w = 2, h = 2, pixels = [Spectrum 1 1 1, Spectrum 1 1 1, Spectrum 1 1 1, Spectrum 1 1 1]\<rparr>
     = Inr [\<lparr>w = 1, h = 1, pixels = [Spectrum 1 1 1]\<rparr>]
   \<and> sample_trilinear \<lparr>w = 2, h = 2, pixels = [Spectrum 1 1 1, Spectrum 1 1 1, Spectrum 1 1 1, Spectrum 1 1 1]\<rparr>
        [\<lparr>w = 1, h = 1, pixels = [Spectrum 1 1 1]\<rparr>] (Vec2 0 0) (1 / 2)
     = Inr (Spectrum 2 2 2)
   \<and> spec_trilinear \<lparr>w = 2, h = 2, pixels = [Spectrum 1 1 1, Spectrum 1 1 1, Spectrum 1 1 1, Spectrum 1 1 1]\<rparr>
        [\<lparr>w = 1, h = 1, pixels = [Spectrum 1 1 1]\<rparr>] (Vec2 0 0) (1 / 2)
     = Inr (Spectrum 1 1 1)
   \<and> sample_trilinear \<lparr>w = 2, h = 2, pixels = [Spectrum 1 1 1, Spectrum 1 1 1, Spectrum 1 1 1, Spectrum 1 1 1]\<rparr>
        [\<lparr>w = 1, h = 1, pixels = [Spectrum 1 1 1]\<rparr>] (Vec2 0 0) 1
     = Inl LevelOutOfRange
   \<and> spec_trilinear \<lparr>w = 2, h = 2, pixels = [Spectrum 1 1 1, Spectrum 1 1 1, Spectrum 1 1 1, Spectrum 1 1 1]\<rparr>
        [\<lparr>w = 1, h = 1, pixels = [Spectrum 1 1 1]\<rparr>] (Vec2 0 0) 1
     = Inr (Spectrum 1 1 1)"
proof -
  have "generate_mipmap \<lparr>w = 2, h = 2, pixels = [Spectrum 1 1 1, Spectrum 1 1 1, Spectrum 1 1 1, Spectrum 1 1 1]\<rparr>
     = Inr [\<lparr>w = 1, h = 1, pixels = [Spectrum 1 1 1]\<rparr>]"
    by code_simp
  then show ?thesis
    by (simp add: sample_trilinear_def spec_trilinear_def sampler_defs)
qed

subsection \<open>Pixel accesses outside the buffer\<close>

text \<open>
  C3 (the code departs from the claim): a source of width 1 is odd, and the last-column
  pass of \<open>downsample\<close> sums a block three texels wide, reading columns 1 and 2 of a
  one-column image. The same happens in the last-row pass for a source of height 1, which
  is what the generator meets on a 4 x 2 base when it derives the 1 x 1 level from the
  2 x 1 level.
\<close>

theorem downsample_reads_out_of_range:
  "sum_block \<lparr>w = 1, h = 2, pixels = [Spectrum 1 0 0, Spectrum 0 1 0]\<rparr> 0 0 3 2 = Inl OutOfRange
   \<and> downsample \<lparr>w = 1, h = 2, pixels = [Spectrum 1 0 0, Spectrum 0 1 0]\<rparr> (HDR_Image_new 1 1)
     = Inl OutOfRange
   \<and> generate_mipmap \<lparr>w = 4, h = 2, pixels = replicate 8 (Spectrum 1 0 0)\<rparr> = Inl OutOfRange"
  by code_simp

subsection \<open>Images with exactly one zero dimension\<close>

text \<open>
  C4 (the code departs from the claim): the guard of \<open>evaluate\<close> requires both dimensions
  to be zero. For the empty image of width 0 and height 1 (and for width 1, height 0) the
  samplers run and address the texel with coordinate \<open>-1\<close>; the result is not the zero
  colour.
\<close>

theorem Image_evaluate_one_zero_dimension:
  "Image_evaluate \<lparr>sampler = nearest, image_hdr = \<lparr>w = 0, h = 1, pixels = []\<rparr>, levels = []\<rparr>
     (Vec2 0 0) 0 = Inl OutOfRange
   \<and> Image_evaluate \<lparr>sampler = bilinear, image_hdr = \<lparr>w = 0, h = 1, pixels = []\<rparr>, levels = []\<rparr>
     (Vec2 0 0) 0 = Inl OutOfRange
   \<and> Image_evaluate \<lparr>sampler = trilinear, image_hdr = \<lparr>w = 0, h = 1, pixels = []\<rparr>, levels = []\<rparr>
     (Vec2 0 0) 0 = Inl OutOfRange
   \<and> Image_evaluate \<lparr>sampler = nearest, image_hdr = \<lparr>w = 1, h = 0, pixels = []\<rparr>, levels = []\<rparr>
     (Vec2 0 0) 0 = Inl OutOfRange
   \<and> Image_evaluate \<lparr>sampler = nearest, image_hdr = \<lparr>w = 0, h = 0, pixels = []\<rparr>, levels = []\<rparr>
     (Vec2 0 0) 0 = Inr Spectrum_zero"
  by (simp add: Image_evaluate_def sample_trilinear_def sampler_defs)

subsection \<open>Constant images of width or height one\<close>

text \<open>
  C5 (the code departs from the claim): for the base image of width 1 and height 2 whose
  two texels are the colour \<open>c = (1, 1, 1)\<close>, and likewise for width 2 and height 1, the
  generator does not produce a level of colour \<open>c\<close>: the three-wide block of the odd
  dimension leaves the image. A source of width 3 has the block the claim describes.
\<close>

theorem generate_mipmap_constant_thin_image:
  "generate_mipmap \<lparr>w = 1, h = 2, pixels = [Spectrum 1 1 1, Spectrum 1 1 1]\<rparr> = Inl OutOfRange
   \<and> generate_mipmap \<lparr>w = 2, h = 1, pixels = [Spectrum 1 1 1, Spectrum 1 1 1]\<rparr> = Inl OutOfRange
   \<and> generate_mipmap \<lparr>w = 3, h = 2, pixels = replicate 6 (Spectrum 1 1 1)\<rparr>
     = Inr [\<lparr>w = 1, h = 1, pixels = [Spectrum 1 1 1]\<rparr>]"
  by code_simp

subsection \<open>The 1 x 1 base image\<close>

text \<open>
  C7 (the code departs from the claim): for the 1 x 1 base image of colour
  \<open>(0.2, 0.4, 0.6)\<close> the generator yields no level. In trilinear mode \<open>evaluate\<close> with a
  positive \<open>lod\<close> then indexes the empty level sequence instead of returning the colour.
\<close>

theorem Image_evaluate_1x1_trilinear:
  "Image_new trilinear \<lparr>w = 1, h = 1, pixels = [Spectrum (1 / 5) (2 / 5) (3 / 5)]\<rparr>
     = Inr \<lparr>sampler = trilinear,
            image_hdr = \<lparr>w = 1, h = 1, pixels = [Spectrum (1 / 5) (2 / 5) (3 / 5)]\<rparr>,
            levels = []\<rparr>
   \<and> Image_evaluate \<lparr>sampler = trilinear,
            image_hdr = \<lparr>w = 1, h = 1, pixels = [Spectrum (1 / 5) (2 / 5) (3 / 5)]\<rparr>,
            levels = []\<rparr> (Vec2 (1 / 2) (1 / 2)) 1
     = Inl LevelOutOfRange
   \<and> Image_evaluate \<lparr>sampler = trilinear,
            image_hdr = \<lparr>w = 1, h = 1, pixels = [Spectrum (1 / 5) (2 / 5) (3 / 5)]\<rparr>,
            levels = []\<rparr> (Vec2 (1 / 2) (1 / 2)) (1 / 2)
     = Inl LevelOutOfRange
   \<and> Image_evaluate \<lparr>sampler = trilinear,
            image_hdr = \<lparr>w = 1, h = 1, pixels = [Spectrum (1 / 5) (2 / 5) (3 / 5)]\<rparr>,
            levels = []\<rparr> (Vec2 (1 / 2) (1 / 2)) 0
     = Inr (Spectrum (1 / 5) (2 / 5) (3 / 5))"
proof -
  have "Image_new trilinear \<lparr>w = 1, h = 1, pixels = [Spectrum (1 / 5) (2 / 5) (3 / 5)]\<rparr>
     = Inr \<lparr>sampler = trilinear,
            image_hdr = \<lparr>w = 1, h = 1, pixels = [Spectrum (1 / 5) (2 / 5) (3 / 5)]\<rparr>,
            levels = []\<rparr>"
    by code_simp
  then show ?thesis
    by (simp add: Image_evaluate_def sample_trilinear_def sampler_defs)
qed

subsection \<open>The level schedule of the generator\<close>

lemma floorlog2_ge2: "2 \<le> m \<Longrightarrow> floorlog 2 m = Suc (floorlog 2 (m div 2))"
  by (subst compute_floorlog) simp

lemma floorlog2_eq_1: "0 < m \<Longrightarrow> floorlog 2 m = Suc 0 \<Longrightarrow> m = 1"
proof (rule ccontr)
  assume "0 < m" and fl: "floorlog 2 m = Suc 0" and "m \<noteq> 1"
  then have "2 \<le> m" by simp
  then have "floorlog 2 m = Suc (floorlog 2 (m div 2))" by (rule floorlog2_ge2)
  with fl have "floorlog 2 (m div 2) = 0" by simp
  then have "m div 2 = 0" by (simp add: floorlog_eq_zero_iff)
  with \<open>2 \<le> m\<close> show False by simp
qed

lemma floorlog2_Suc_Suc: "floorlog 2 m = Suc (Suc k) \<Longrightarrow> 2 \<le> m"
proof (rule ccontr)
  assume fl: "floorlog 2 m = Suc (Suc k)" and "\<not> 2 \<le> m"
  then have "m = 0 \<or> m = 1" by auto
  then have "floorlog 2 m \<le> 1"
    by (auto simp: compute_floorlog)
  with fl show False by simp
qed

lemma max_halves:
  fixes a b :: nat
  assumes "2 \<le> max a b"
  shows "max (max 1 (a div 2)) (max 1 (b div 2)) = max a b div 2"
proof -
  have halves: "max (a div 2) (b div 2) = max a b div 2"
  proof (cases "a \<le> b")
    case True
    then have "a div 2 \<le> b div 2" by (rule div_le_mono)
    then show ?thesis using True by (auto simp: max_def)
  next
    case False
    then have "b div 2 \<le> a div 2" by (intro div_le_mono) simp
    then show ?thesis using False by (auto simp: max_def)
  qed
  have "1 \<le> max a b div 2" using assms by simp
  then have "1 \<le> max (a div 2) (b div 2)" using halves by simp
  then have "max (max 1 (a div 2)) (max 1 (b div 2)) = max (a div 2) (b div 2)" by linarith
  then show ?thesis using halves by simp
qed

lemma wf_image_new [simp]: "wf_image (HDR_Image_new a b)"
  by (simp add: wf_image_def HDR_Image_new_def)

lemma HDR_Image_new_dims [simp]: "w (HDR_Image_new a b) = a" "h (HDR_Image_new a b) = b"
  by (simp_all add: HDR_Image_new_def)

lemma halving_chain_append:
  "halving_chain a b (xs @ [l]) \<longleftrightarrow>
     halving_chain a b xs \<and>
     w l = max 1 ((if xs = [] then a else w (last xs)) div 2) \<and>
     h l = max 1 ((if xs = [] then b else h (last xs)) div 2)"
  by (induction xs arbitrary: a b) auto

text \<open>What the allocation loop returns when no assertion fails.\<close>

lemma allocate_loop_Inr:
  "allocate_loop k a b acc = Inr (a', b', ls') \<Longrightarrow>
     \<exists>ls. ls' = acc @ ls \<and> length ls = k \<and> halving_chain a b ls \<and>
          (\<forall>l \<in> set ls. wf_image l) \<and>
          a' = (if ls = [] then a else w (last ls)) \<and>
          b' = (if ls = [] then b else h (last ls))"
proof (induction k arbitrary: a b acc)
  case 0
  then show ?case by simp
next
  case (Suc k)
  define l where "l = HDR_Image_new (max 1 (a div 2)) (max 1 (b div 2))"
  from Suc.prems have rec: "allocate_loop k (max 1 (a div 2)) (max 1 (b div 2)) (acc @ [l]) = Inr (a', b', ls')"
    by (simp add: Let_def l_def split: if_splits)
  from Suc.IH[OF rec] obtain ls where ls:
    "ls' = (acc @ [l]) @ ls" "length ls = k" "halving_chain (max 1 (a div 2)) (max 1 (b div 2)) ls"
    "\<forall>x \<in> set ls. wf_image x"
    "a' = (if ls = [] then max 1 (a div 2) else w (last ls))"
    "b' = (if ls = [] then max 1 (b div 2) else h (last ls))"
    by blast
  have "ls' = acc @ (l # ls)" using ls(1) by simp
  moreover have "length (l # ls) = Suc k" using ls(2) by simp
  moreover have "halving_chain a b (l # ls)" using ls(3) by (simp add: l_def)
  moreover have "\<forall>x \<in> set (l # ls). wf_image x" using ls(4) by (simp add: l_def)
  moreover have "a' = (if l # ls = [] then a else w (last (l # ls)))"
    using ls(5) by (simp add: l_def)
  moreover have "b' = (if l # ls = [] then b else h (last (l # ls)))"
    using ls(6) by (simp add: l_def)
  ultimately show ?case by blast
qed

text \<open>The loop's assertion never fires when the count is the bit length minus one.\<close>

lemma allocate_loop_succeeds:
  "1 \<le> a \<Longrightarrow> 1 \<le> b \<Longrightarrow> floorlog 2 (max a b) = Suc k \<Longrightarrow>
     \<exists>ls'. allocate_loop k a b acc = Inr (1, 1, ls')"
proof (induction k arbitrary: a b acc)
  case 0
  then have "max a b = 1" by (intro floorlog2_eq_1) (simp_all add: max_def)
  with "0.prems" have "a = 1" "b = 1" by (simp_all add: max_def split: if_splits)
  then show ?case by simp
next
  case (Suc k)
  from Suc.prems(3) have m2: "2 \<le> max a b" by (rule floorlog2_Suc_Suc)
  then have not11: "\<not> (a = 1 \<and> b = 1)" by auto
  have "floorlog 2 (max a b) = Suc (floorlog 2 (max a b div 2))"
    using m2 by (rule floorlog2_ge2)
  with Suc.prems(3) have "floorlog 2 (max a b div 2) = Suc k" by simp
  then have fl: "floorlog 2 (max (max 1 (a div 2)) (max 1 (b div 2))) = Suc k"
    using max_halves[OF m2] by simp
  have "\<exists>ls'. allocate_loop k (max 1 (a div 2)) (max 1 (b div 2))
          (acc @ [HDR_Image_new (max 1 (a div 2)) (max 1 (b div 2))]) = Inr (1, 1, ls')"
    by (rule Suc.IH[OF _ _ fl]) simp_all
  then show ?case using not11 by (simp add: Let_def)
qed

lemma halving_chain_nth:
  "halving_chain a b ls \<Longrightarrow> i < length ls \<Longrightarrow>
     w (ls ! i) = max 1 ((if i = 0 then a else w (ls ! (i - 1))) div 2) \<and>
     h (ls ! i) = max 1 ((if i = 0 then b else h (ls ! (i - 1))) div 2)"
proof (induction ls arbitrary: a b i)
  case Nil
  then show ?case by simp
next
  case (Cons l ls)
  show ?case
  proof (cases i)
    case 0
    with Cons.prems show ?thesis by simp
  next
    case (Suc j)
    from Cons.prems(1) have chain: "halving_chain (w l) (h l) ls"
      unfolding halving_chain.simps by blast
    from Cons.prems(2) Suc have "j < length ls" by simp
    from Cons.IH[OF chain this] show ?thesis using Suc by (cases j) simp_all
  qed
qed

subsection \<open>Loops with errors\<close>

lemma fold_err_Inr_invariant:
  assumes "fold_err f xs s = Inr s'"
    and "P s"
    and "\<And>x s s'. x \<in> set xs \<Longrightarrow> P s \<Longrightarrow> f x s = Inr s' \<Longrightarrow> P s'"
  shows "P s'"
  using assms
proof (induction xs arbitrary: s)
  case Nil
  then show ?case by simp
next
  case (Cons x xs)
  from Cons.prems(1) obtain s1 where s1: "f x s = Inr s1" "fold_err f xs s1 = Inr s'"
    by (auto simp: bind_err_eq_Inr)
  have "P s1" using Cons.prems(2) s1(1) by (rule Cons.prems(3)[of x, simplified])
  show ?case
    by (rule Cons.IH[OF s1(2) \<open>P s1\<close>]) (rule Cons.prems(3), simp_all)
qed

lemma fold_err_Inl_step:
  assumes "fold_err f xs s = Inl e"
  shows "\<exists>x \<in> set xs. \<exists>s0. f x s0 = Inl e"
  using assms
proof (induction xs arbitrary: s)
  case Nil
  then show ?case by simp
next
  case (Cons x xs)
  then show ?case by (fastforce simp: bind_err_eq_Inl)
qed

subsection \<open>Dimensions and errors of the downsample step\<close>

lemma at_xy_Inl: "at_xy img x y = Inl e \<Longrightarrow> e = OutOfRange"
  by (simp add: at_xy_def split: if_splits)

lemma at_put_Inl: "at_put img x y v = Inl e \<Longrightarrow> e = OutOfRange"
  by (simp add: at_put_def split: if_splits)

lemma at_put_Inr:
  "at_put img x y v = Inr img' \<Longrightarrow>
     w img' = w img \<and> h img' = h img \<and> length (pixels img') = length (pixels img)"
  by (auto simp: at_put_def split: if_splits)

lemma sum_block_Inl: "sum_block src x0 y0 nx ny = Inl e \<Longrightarrow> e = OutOfRange"
  unfolding sum_block_def
  by (auto dest!: fold_err_Inl_step simp: bind_err_eq_Inl dest: at_xy_Inl)

lemma put_average_Inl: "put_average src x0 y0 nx ny x y n dst = Inl e \<Longrightarrow> e = OutOfRange"
  unfolding put_average_def
  by (auto simp: bind_err_eq_Inl dest: sum_block_Inl at_put_Inl)

lemma put_average_Inr:
  "put_average src x0 y0 nx ny x y n dst = Inr d \<Longrightarrow>
     w d = w dst \<and> h d = h dst \<and> length (pixels d) = length (pixels dst)"
  unfolding put_average_def
  by (auto simp: bind_err_eq_Inr dest: at_put_Inr)

lemma same_shape_refl [simp]: "same_shape a a"
  by (simp add: same_shape_def)

lemma same_shape_trans: "same_shape a b \<Longrightarrow> same_shape b c \<Longrightarrow> same_shape a c"
  by (simp add: same_shape_def)

lemma same_shape_wf: "same_shape a b \<Longrightarrow> wf_image b \<Longrightarrow> wf_image a"
  by (simp add: same_shape_def wf_image_def)

lemma put_average_same_shape:
  "put_average src x0 y0 nx ny x y n d = Inr d' \<Longrightarrow> same_shape d dst \<Longrightarrow> same_shape d' dst"
  by (drule put_average_Inr) (simp add: same_shape_def)

lemma downsample_main_Inr:
  assumes "downsample_main src dstW dstH dst = Inr d"
  shows "same_shape d dst"
proof -
  have inner: "same_shape s' dst"
    if "fold_err (\<lambda>y. put_average src (2 * int x) (2 * int y) 2 2 (int x) (int y) 4) ys s = Inr s'"
      and "same_shape s dst" for x ys s s'
    using that(1) that(2)
    by (rule fold_err_Inr_invariant) (rule put_average_same_shape)
  show ?thesis
    using assms unfolding downsample_main_def
    by (rule fold_err_Inr_invariant[where P = "\<lambda>s. same_shape s dst"]) (simp, rule inner)
qed

lemma downsample_main_Inl: "downsample_main src dstW dstH dst = Inl e \<Longrightarrow> e = OutOfRange"
  unfolding downsample_main_def
  by (auto dest!: fold_err_Inl_step dest: put_average_Inl)

lemma downsample_last_column_Inr:
  assumes "downsample_last_column src last_x dst = Inr d"
  shows "same_shape d dst"
  using assms unfolding downsample_last_column_def
  by (rule fold_err_Inr_invariant[where P = "\<lambda>s. same_shape s dst"])
     (simp, rule put_average_same_shape)

lemma downsample_last_column_Inl: "downsample_last_column src last_x dst = Inl e \<Longrightarrow> e = OutOfRange"
  unfolding downsample_last_column_def
  by (auto dest!: fold_err_Inl_step dest: put_average_Inl)

lemma downsample_last_row_Inr:
  assumes "downsample_last_row src last_y dst = Inr d"
  shows "same_shape d dst"
  using assms unfolding downsample_last_row_def
  by (rule fold_err_Inr_invariant[where P = "\<lambda>s. same_shape s dst"])
     (simp, rule put_average_same_shape)

lemma downsample_last_row_Inl: "downsample_last_row src last_y dst = Inl e \<Longrightarrow> e = OutOfRange"
  unfolding downsample_last_row_def
  by (auto dest!: fold_err_Inl_step dest: put_average_Inl)

text \<open>
  A successful \<open>downsample\<close> leaves the shape of the destination as it was, and the
  destination had the halved dimensions of the source.
\<close>

lemma bind_err_InrE:
  assumes "bind_err m f = Inr y"
  obtains x where "m = Inr x" and "f x = Inr y"
  using assms by (auto simp: bind_err_eq_Inr)

lemma downsample_unfold:
  assumes "w dst = max 1 (w src div 2)" and "h dst = max 1 (h src div 2)"
  shows "downsample src dst =
     bind_err (downsample_main src
                 (if w src mod 2 = 1 then int (w dst) - 1 else int (w dst))
                 (if h src mod 2 = 1 then int (h dst) - 1 else int (h dst)) dst) (\<lambda>d1.
     bind_err (if w src mod 2 = 1 then downsample_last_column src (int (w dst) - 1) d1 else Inr d1) (\<lambda>d2.
     bind_err (if h src mod 2 = 1 then downsample_last_row src (int (h dst) - 1) d2 else Inr d2) (\<lambda>d3.
     if w src mod 2 = 1 \<and> h src mod 2 = 1
     then put_average src ((int (w dst) - 1) * 2) ((int (h dst) - 1) * 2) 3 3
            (int (w dst) - 1) (int (h dst) - 1) 9 d3
     else Inr d3)))"
  using assms unfolding downsample_def Let_def by simp

lemma downsample_Inr:
  assumes "downsample src dst = Inr d"
  shows "same_shape d dst \<and> w dst = max 1 (w src div 2) \<and> h dst = max 1 (h src div 2)"
proof -
  from assms have dims: "w dst = max 1 (w src div 2)" "h dst = max 1 (h src div 2)"
    by (auto simp: downsample_def split: if_splits)
  from assms obtain d1 d2 d3 where
    d1: "downsample_main src (if w src mod 2 = 1 then int (w dst) - 1 else int (w dst))
           (if h src mod 2 = 1 then int (h dst) - 1 else int (h dst)) dst = Inr d1"
    and d2: "(if w src mod 2 = 1 then downsample_last_column src (int (w dst) - 1) d1 else Inr d1) = Inr d2"
    and d3: "(if h src mod 2 = 1 then downsample_last_row src (int (h dst) - 1) d2 else Inr d2) = Inr d3"
    and d4: "(if w src mod 2 = 1 \<and> h src mod 2 = 1
              then put_average src ((int (w dst) - 1) * 2) ((int (h dst) - 1) * 2) 3 3
                     (int (w dst) - 1) (int (h dst) - 1) 9 d3
              else Inr d3) = Inr d"
    unfolding downsample_unfold[OF dims] by (elim bind_err_InrE)
  have s1: "same_shape d1 dst" using d1 by (rule downsample_main_Inr)
  have s2: "same_shape d2 dst"
  proof (cases "w src mod 2 = 1")
    case True
    with d2 have "same_shape d2 d1" by (simp add: downsample_last_column_Inr)
    then show ?thesis using s1 by (rule same_shape_trans)
  next
    case False
    with d2 s1 show ?thesis by simp
  qed
  have s3: "same_shape d3 dst"
  proof (cases "h src mod 2 = 1")
    case True
    with d3 have "same_shape d3 d2" by (simp add: downsample_last_row_Inr)
    then show ?thesis using s2 by (rule same_shape_trans)
  next
    case False
    with d3 s2 show ?thesis by simp
  qed
  have "same_shape d dst"
  proof (cases "w src mod 2 = 1 \<and> h src mod 2 = 1")
    case True
    with d4 have "put_average src ((int (w dst) - 1) * 2) ((int (h dst) - 1) * 2) 3 3
                     (int (w dst) - 1) (int (h dst) - 1) 9 d3 = Inr d"
      by simp
    then show ?thesis using s3 by (rule put_average_same_shape)
  next
    case False
    with d4 s3 show ?thesis by auto
  qed
  with dims show ?thesis by simp
qed

text \<open>The assertions of \<open>downsample\<close> hold for a destination of the halved dimensions.\<close>

lemma downsample_Inl:
  assumes "downsample src dst = Inl e"
    and "w dst = max 1 (w src div 2)" and "h dst = max 1 (h src div 2)"
  shows "e = OutOfRange"
  using assms(1) unfolding downsample_unfold[OF assms(2,3)]
  by (auto simp: bind_err_eq_Inl split: if_splits
      dest: downsample_main_Inl downsample_last_column_Inl downsample_last_row_Inl put_average_Inl)

lemma fill_levels_chain:
  assumes "halving_chain (w src) (h src) ls"
  shows "(\<forall>ls'. fill_levels src ls = Inr ls' \<longrightarrow> list_all2 same_shape ls' ls) \<and>
         (\<forall>e. fill_levels src ls = Inl e \<longrightarrow> e = OutOfRange)"
  using assms
proof (induction ls arbitrary: src)
  case Nil
  then show ?case by simp
next
  case (Cons l ls)
  from Cons.prems have dims: "w l = max 1 (w src div 2)" "h l = max 1 (h src div 2)"
    and chain: "halving_chain (w l) (h l) ls"
    unfolding halving_chain.simps by blast+
  show ?case
  proof (cases "downsample src l")
    case (Inl e)
    then have "e = OutOfRange" using dims by (rule downsample_Inl)
    with Inl show ?thesis by simp
  next
    case (Inr d)
    then have shape: "same_shape d l" using downsample_Inr by blast
    then have "halving_chain (w d) (h d) ls" using chain by (simp add: same_shape_def)
    from Cons.IH[OF this] shape Inr show ?thesis
      by (auto simp: bind_err_eq_Inr bind_err_eq_Inl)
  qed
qed

lemma level_schedule_same_shape:
  assumes "level_schedule base ls" and "list_all2 same_shape ls' ls"
  shows "level_schedule base ls'"
proof -
  from assms(2) have len: "length ls' = length ls" by (rule list_all2_lengthD)
  have nth: "w (ls' ! i) = w (ls ! i) \<and> h (ls' ! i) = h (ls ! i)" if "i < length ls" for i
    using list_all2_nthD2[OF assms(2) that] by (simp add: same_shape_def)
  have dims: "w (ls' ! i) = max 1 (w (if i = 0 then base else ls' ! (i - 1)) div 2) \<and>
              h (ls' ! i) = max 1 (h (if i = 0 then base else ls' ! (i - 1)) div 2)"
    if "i < length ls'" for i
  proof -
    from that len have i: "i < length ls" by simp
    from assms(1) i have
      "w (ls ! i) = max 1 (w (if i = 0 then base else ls ! (i - 1)) div 2) \<and>
       h (ls ! i) = max 1 (h (if i = 0 then base else ls ! (i - 1)) div 2)"
      unfolding level_schedule_def by blast
    moreover have "i - 1 < length ls" using i by simp
    ultimately show ?thesis using nth[OF i] nth[of "i - 1"] by (cases "i = 0") simp_all
  qed
  have lst: "w (last ls') = 1 \<and> h (last ls') = 1" if "ls' \<noteq> []"
  proof -
    from that len have ne: "ls \<noteq> []" by auto
    then have "w (last ls) = 1 \<and> h (last ls) = 1"
      using assms(1) unfolding level_schedule_def by blast
    moreover have "length ls - 1 < length ls" using ne by simp
    ultimately show ?thesis
      using nth[of "length ls - 1"] ne that len by (simp add: last_conv_nth)
  qed
  from assms(1) have "int (length ls) = \<lfloor>log 2 (real (max (w base) (h base)))\<rfloor>"
    unfolding level_schedule_def by blast
  then have "int (length ls') = \<lfloor>log 2 (real (max (w base) (h base)))\<rfloor>"
    using len by simp
  then show ?thesis
    unfolding level_schedule_def
  proof (intro conjI allI impI)
    fix i assume "i < length ls'"
    then show "w (ls' ! i) = max 1 (w (if i = 0 then base else ls' ! (i - 1)) div 2)"
      and "h (ls' ! i) = max 1 (h (if i = 0 then base else ls' ! (i - 1)) div 2)"
      using dims by blast+
  next
    assume "ls' \<noteq> []"
    then show "w (last ls') = 1" and "h (last ls') = 1" using lst by blast+
  qed
qed

lemma allocate_levels_schedule:
  assumes "1 \<le> w base" and "1 \<le> h base"
  shows "\<exists>ls. allocate_levels base = Inr ls \<and> level_schedule base ls \<and>
              halving_chain (w base) (h base) ls \<and> (\<forall>l \<in> set ls. wf_image l)"
proof -
  define m where "m = max (w base) (h base)"
  define k where "k = floorlog 2 m - 1"
  have pos: "0 < m" using assms by (simp add: m_def max_def)
  then have fl: "floorlog 2 m = nat \<lfloor>log 2 (real m)\<rfloor> + 1"
    by (simp add: floorlog_def)
  then have flk: "floorlog 2 m = Suc k" by (simp add: k_def)
  have "0 \<le> log 2 (real m)" using pos by simp
  then have klog: "int k = \<lfloor>log 2 (real m)\<rfloor>" using fl by (simp add: k_def)
  from allocate_loop_succeeds[OF assms flk[unfolded m_def]]
  obtain ls' where run: "allocate_loop k (w base) (h base) [] = Inr (1, 1, ls')" by blast
  from allocate_loop_Inr[OF run] have
    len: "length ls' = k" and chain: "halving_chain (w base) (h base) ls'"
    and wf: "\<forall>l \<in> set ls'. wf_image l"
    and fin: "1 = (if ls' = [] then w base else w (last ls'))"
             "1 = (if ls' = [] then h base else h (last ls'))"
    by auto
  have alloc: "allocate_levels base = Inr ls'"
    unfolding allocate_levels_floorlog m_def[symmetric] k_def[symmetric]
    using pos run len by simp
  have dims: "w (ls' ! i) = max 1 (w (if i = 0 then base else ls' ! (i - 1)) div 2) \<and>
              h (ls' ! i) = max 1 (h (if i = 0 then base else ls' ! (i - 1)) div 2)"
    if "i < length ls'" for i
    using halving_chain_nth[OF chain that] by (cases "i = 0") simp_all
  have lst: "ls' \<noteq> [] \<longrightarrow> w (last ls') = 1 \<and> h (last ls') = 1"
    using fin by (cases "ls' = []") simp_all
  have "int (length ls') = \<lfloor>log 2 (real (max (w base) (h base)))\<rfloor>"
    using len klog by (simp add: m_def)
  then have "level_schedule base ls'"
    unfolding level_schedule_def
  proof (intro conjI allI impI)
    fix i assume "i < length ls'"
    then show "w (ls' ! i) = max 1 (w (if i = 0 then base else ls' ! (i - 1)) div 2)"
      and "h (ls' ! i) = max 1 (h (if i = 0 then base else ls' ! (i - 1)) div 2)"
      using dims by blast+
  next
    assume "ls' \<noteq> []"
    then show "w (last ls') = 1" and "h (last ls') = 1" using lst by blast+
  qed
  with alloc chain wf show ?thesis by blast
qed

text \<open>
  For a base image with both dimensions positive no assertion of the generator fires, in
  the allocation block or in \<open>downsample\<close>: the allocation block sizes the levels of the
  schedule, and the generator either returns levels of that schedule or reads a pixel
  outside a buffer.
\<close>

lemma generate_mipmap_schedule_or_out_of_range:
  assumes "1 \<le> w base" and "1 \<le> h base"
  shows "(\<exists>ls. allocate_levels base = Inr ls \<and> level_schedule base ls) \<and>
         ((\<exists>ls'. generate_mipmap base = Inr ls' \<and> level_schedule base ls') \<or>
          generate_mipmap base = Inl OutOfRange)"
proof -
  from allocate_levels_schedule[OF assms] obtain ls where
    alloc: "allocate_levels base = Inr ls" and sched: "level_schedule base ls"
    and chain: "halving_chain (w base) (h base) ls"
    by blast
  have gen: "generate_mipmap base = fill_levels base ls"
    by (simp add: generate_mipmap_def alloc)
  from fill_levels_chain[OF chain] have
    ok: "\<And>ls'. fill_levels base ls = Inr ls' \<Longrightarrow> list_all2 same_shape ls' ls"
    and err: "\<And>e. fill_levels base ls = Inl e \<Longrightarrow> e = OutOfRange"
    by blast+
  have "(\<exists>ls'. generate_mipmap base = Inr ls' \<and> level_schedule base ls') \<or>
        generate_mipmap base = Inl OutOfRange"
  proof (cases "fill_levels base ls")
    case (Inl e)
    with err gen show ?thesis by simp
  next
    case (Inr ls')
    from level_schedule_same_shape[OF sched ok[OF Inr]] Inr gen show ?thesis by simp
  qed
  with alloc sched show ?thesis by blast
qed

text \<open>
  C6 (the code departs from the claim): for the base image of width 5 and height 3 the
  allocation block sizes the \<open>floor(log2 5) = 2\<close> levels of the claim, 2 x 1 and 1 x 1, and
  none of its assertions fires; but the generator does not produce them: filling the
  1 x 1 level from the 2 x 1 level, the last-row pass of \<open>downsample\<close> takes height 1 as
  odd and reads row 1 of a one-row image. The same happens for the 8 x 2 base, with
  levels 4 x 1, 2 x 1 and 1 x 1.
\<close>

theorem generate_mipmap_produces_no_levels:
  "allocate_levels \<lparr>w = 5, h = 3, pixels = replicate 15 (Spectrum 1 0 0)\<rparr>
     = Inr [HDR_Image_new 2 1, HDR_Image_new 1 1]
   \<and> generate_mipmap \<lparr>w = 5, h = 3, pixels = replicate 15 (Spectrum 1 0 0)\<rparr> = Inl OutOfRange
   \<and> allocate_levels \<lparr>w = 8, h = 2, pixels = replicate 16 (Spectrum 1 0 0)\<rparr>
     = Inr [HDR_Image_new 4 1, HDR_Image_new 2 1, HDR_Image_new 1 1]
   \<and> generate_mipmap \<lparr>w = 8, h = 2, pixels = replicate 16 (Spectrum 1 0 0)\<rparr> = Inl OutOfRange"
  by code_simp

subsection \<open>Where the samplers stay inside the buffer\<close>

lemma fold_err_succeeds:
  assumes "\<And>x s. x \<in> set xs \<Longrightarrow> \<exists>s'. f x s = Inr s'"
  shows "\<exists>s'. fold_err f xs s = Inr s'"
  using assms
proof (induction xs arbitrary: s)
  case Nil
  then show ?case by simp
next
  case (Cons x xs)
  from Cons.prems[of x s] obtain s1 where s1: "f x s = Inr s1" by auto
  have "\<exists>s'. fold_err f xs s1 = Inr s'"
    by (rule Cons.IH) (rule Cons.prems, simp)
  with s1 show ?case by simp
qed

lemma index_in_buffer:
  fixes x y a b :: nat
  assumes "x < a" and "y < b"
  shows "y * a + x < a * b"
proof -
  have "y * a + x < Suc y * a" using assms(1) by simp
  also have "Suc y * a \<le> b * a" using assms(2) by (intro mult_le_mono1) simp
  finally show ?thesis by (simp add: mult.commute)
qed

lemma wf_image_index:
  assumes "wf_image img" and "0 \<le> x" "x < int (w img)" "0 \<le> y" "y < int (h img)"
  shows "nat y * w img + nat x < length (pixels img)"
proof -
  have "nat y * w img + nat x < w img * h img"
    using assms(2-5) by (intro index_in_buffer) simp_all
  then show ?thesis using assms(1) by (simp add: wf_image_def)
qed

lemma at_xy_in_range:
  assumes "wf_image img" and "0 \<le> x" "x < int (w img)" "0 \<le> y" "y < int (h img)"
  shows "at_xy img x y = Inr (pixels img ! (nat y * w img + nat x))"
  using wf_image_index[OF assms] assms(2-5) by (simp add: at_xy_def)

text \<open>
  On an image with both dimensions positive the nearest sampler reads one texel, with
  coordinates inside the image.
\<close>

lemma sample_nearest_in_range:
  assumes "wf_image img" and "1 \<le> w img" and "1 \<le> h img"
  shows "\<exists>x y. 0 \<le> x \<and> x < int (w img) \<and> 0 \<le> y \<and> y < int (h img) \<and>
           sample_nearest img uv = Inr (pixels img ! (nat y * w img + nat x))"
proof -
  obtain ux uy where uv: "uv = Vec2 ux uy" by (cases uv)
  define x where "x = min \<lfloor>real (w img) * clamp ux 0 1\<rfloor> (int (w img) - 1)"
  define y where "y = min \<lfloor>real (h img) * clamp uy 0 1\<rfloor> (int (h img) - 1)"
  have "0 \<le> clamp ux 0 1" "0 \<le> clamp uy 0 1" by (simp_all add: clamp_def)
  then have "0 \<le> real (w img) * clamp ux 0 1" "0 \<le> real (h img) * clamp uy 0 1" by simp_all
  then have "0 \<le> \<lfloor>real (w img) * clamp ux 0 1\<rfloor>" "0 \<le> \<lfloor>real (h img) * clamp uy 0 1\<rfloor>" by simp_all
  then have rng: "0 \<le> x" "x < int (w img)" "0 \<le> y" "y < int (h img)"
    using assms by (simp_all add: x_def y_def)
  have "sample_nearest img uv = at_xy img x y"
    by (simp add: uv x_def y_def Let_def)
  with at_xy_in_range[OF assms(1) rng] rng show ?thesis by auto
qed

lemma bilinear_step_in_range:
  assumes "wf_image img" and "1 \<le> w img" and "1 \<le> h img"
  shows "\<exists>x y. 0 \<le> x \<and> x < int (w img) \<and> 0 \<le> y \<and> y < int (h img) \<and>
           bilinear_step img iw ih offset res =
             Inr (Spectrum_add res (Spectrum_scale (pixels img ! (nat y * w img + nat x)) (1 / 4)))"
proof -
  define x where "x = clamp (max (iw + fst offset) 0) 0 (int (w img) - 1)"
  define y where "y = clamp (max (ih + snd offset) 0) 0 (int (h img) - 1)"
  have rng: "0 \<le> x" "x < int (w img)" "0 \<le> y" "y < int (h img)"
    using assms by (auto simp: x_def y_def clamp_def)
  have "bilinear_step img iw ih offset res =
          bind_err (at_xy img x y) (\<lambda>c. Inr (Spectrum_add res (Spectrum_scale c (1 / 4))))"
    by (simp add: bilinear_step_def x_def y_def Let_def)
  with at_xy_in_range[OF assms(1) rng] rng show ?thesis by auto
qed

text \<open>On an image with both dimensions positive the bilinear sampler returns a colour.\<close>

lemma sample_bilinear_in_range:
  assumes "wf_image img" and "1 \<le> w img" and "1 \<le> h img"
  shows "\<exists>c. sample_bilinear img uv = Inr c"
proof -
  obtain ux uy where uv: "uv = Vec2 ux uy" by (cases uv)
  have "\<exists>s'. fold_err (bilinear_step img iw ih) offs s = Inr s'" for iw ih offs s
    by (rule fold_err_succeeds) (use bilinear_step_in_range[OF assms] in metis)
  then show ?thesis by (simp add: uv Let_def)
qed

lemma Image_evaluate_in_range:
  assumes "wf_image (image_hdr t)" and "1 \<le> w (image_hdr t)" and "1 \<le> h (image_hdr t)"
    and "sampler t \<noteq> trilinear"
  shows "\<exists>c. Image_evaluate t uv lod = Inr c"
proof (cases "sampler t = nearest")
  case True
  with sample_nearest_in_range[OF assms(1-3), of uv] assms show ?thesis
    by (auto simp: Image_evaluate_def)
next
  case False
  with assms(4) have "sampler t = bilinear" by (cases "sampler t") simp_all
  with sample_bilinear_in_range[OF assms(1-3), of uv] assms show ?thesis
    by (auto simp: Image_evaluate_def)
qed

subsection \<open>The samplers on a 1 x 1 image\<close>

lemma Spectrum_quarters:
  "Spectrum_add (Spectrum_add (Spectrum_add (Spectrum_add Spectrum_zero
     (Spectrum_scale c (1 / 4))) (Spectrum_scale c (1 / 4))) (Spectrum_scale c (1 / 4)))
     (Spectrum_scale c (1 / 4)) = c"
  by (cases c) (simp add: Spectrum_zero_def)

lemma bilinear_step_1x1:
  assumes "w img = 1" and "h img = 1" and "pixels img = [c]"
  shows "bilinear_step img iw ih offset res = Inr (Spectrum_add res (Spectrum_scale c (1 / 4)))"
  using assms by (simp add: bilinear_step_def clamp_def at_xy_def)

lemma fold_bilinear_1x1:
  assumes "w img = 1" and "h img = 1" and "pixels img = [c]"
  shows "fold_err (bilinear_step img iw ih) [o1, o2, o3, o4] Spectrum_zero = Inr c"
  by (simp add: bilinear_step_1x1[OF assms] Spectrum_quarters)

lemma OFFSETS_cases:
  "i < 4 \<Longrightarrow> \<exists>o1 o2 o3 o4. OFFSETS ! i = [o1, o2, o3, o4]"
proof -
  assume "i < 4"
  then have "i = 0 \<or> i = 1 \<or> i = 2 \<or> i = 3" by auto
  then show ?thesis
    by (auto simp: OFFSETS_def LEFT_UP_def LEFT_DOWN_def RIGHT_UP_def RIGHT_DOWN_def)
qed

text \<open>
  For the 1 x 1 image of colour \<open>c\<close> the nearest and the bilinear sampler return \<open>c\<close> at
  every \<open>uv\<close>, and so does \<open>evaluate\<close> in trilinear mode for \<open>lod \<le> 0\<close>.
\<close>

lemma sample_nearest_1x1:
  assumes "w img = 1" and "h img = 1" and "pixels img = [c]"
  shows "sample_nearest img uv = Inr c"
proof -
  obtain ux uy where uv: "uv = Vec2 ux uy" by (cases uv)
  have nn: "0 \<le> clamp ux 0 1" "0 \<le> clamp uy 0 1" by (simp_all add: clamp_def)
  then have "min \<lfloor>clamp ux 0 1\<rfloor> 0 = 0" "min \<lfloor>clamp uy 0 1\<rfloor> 0 = 0" by simp_all
  then show ?thesis using assms nn by (simp add: uv at_xy_def Let_def)
qed

lemma sample_bilinear_1x1:
  assumes "w img = 1" and "h img = 1" and "pixels img = [c]"
  shows "sample_bilinear img uv = Inr c"
proof -
  obtain ux uy where uv: "uv = Vec2 ux uy" by (cases uv)
  define i :: nat where
    "i = (if ux - real_of_int (float_to_int ux) > 1 / 2 then 2 else 0) +
         (if uy - real_of_int (float_to_int uy) < 1 / 2 then 1 else 0)"
  have "i < 4" by (simp add: i_def)
  from OFFSETS_cases[OF this] obtain o1 o2 o3 o4 where "OFFSETS ! i = [o1, o2, o3, o4]" by blast
  then have "fold_err (bilinear_step img (float_to_int ux) (float_to_int uy))
               (OFFSETS ! i) Spectrum_zero = Inr c"
    by (simp only: fold_bilinear_1x1[OF assms])
  moreover have "sample_bilinear img uv =
      fold_err (bilinear_step img (float_to_int ux) (float_to_int uy)) (OFFSETS ! i) Spectrum_zero"
    using assms(1,2) by (simp add: uv i_def Let_def)
  ultimately show ?thesis by simp
qed

lemma Image_evaluate_1x1:
  assumes "w (image_hdr t) = 1" and "h (image_hdr t) = 1" and "pixels (image_hdr t) = [c]"
    and "sampler t \<noteq> trilinear \<or> lod \<le> 0"
  shows "Image_evaluate t uv lod = Inr c"
  using assms(4) sample_nearest_1x1[OF assms(1-3)] sample_bilinear_1x1[OF assms(1-3)] assms(1)
  by (cases "sampler t") (auto simp: Image_evaluate_def sample_trilinear_def)

subsection \<open>The trilinear sampler inside the level sequence\<close>

lemma Spectrum_scale_one_zero:
  "Spectrum_add (Spectrum_scale s 1) (Spectrum_scale s' 0) = s"
  by (cases s; cases s') simp

text \<open>
  For \<open>0 < lod\<close> with \<open>ceil(lod)\<close> at most the last index, \<open>sample_trilinear\<close> is the
  blend of the specification: the two differ only above the last level.
\<close>

lemma sample_trilinear_in_range:
  assumes "0 < lod" and "\<lceil>lod\<rceil> \<le> int (length lvls) - 1"
  shows "sample_trilinear base lvls uv lod = spec_trilinear base lvls uv lod"
proof -
  define n where "n = \<lfloor>lod\<rfloor>"
  have n0: "0 \<le> n" using assms(1) by (simp add: n_def)
  have fl: "float_to_int lod = n" using assms(1) by (simp add: float_to_int_def n_def)
  have fl1: "float_to_int (lod + 1) = n + 1"
    using assms(1) by (simp add: float_to_int_def n_def)
  have mx: "max 0 n = n" using n0 by simp
  show ?thesis
  proof (cases "lod = real_of_int n")
    case True
    then have ce: "\<lceil>lod\<rceil> = n" by simp
    with assms(2) have nL: "n \<le> int (length lvls) - 1" by simp
    then have cl: "clamp n 0 (int (length lvls) - 1) = n" using n0 by (simp add: clamp_def)
    have a0: "lod - real_of_int n = 0" using True by simp
    obtain l where l: "level_at lvls n = Inr l"
      using n0 nL by (simp add: level_at_def)
    have code: "sample_trilinear base lvls uv lod = sample_bilinear l uv"
      unfolding sample_trilinear_def Let_def fl mx a0 using assms(1) l by simp
    have spec: "spec_trilinear base lvls uv lod = sample_bilinear l uv"
      unfolding spec_trilinear_def Let_def n_def[symmetric] ce cl a0 using assms(1) l
      by (cases "sample_bilinear l uv") (simp_all add: Spectrum_scale_one_zero)
    from code spec show ?thesis by simp
  next
    case False
    then have ce: "\<lceil>lod\<rceil> = n + 1"
      unfolding n_def by (metis ceiling_altdef of_int_floor_cancel)
    with assms(2) have nL: "n + 1 \<le> int (length lvls) - 1" by simp
    have cl: "clamp n 0 (int (length lvls) - 1) = n" "clamp (n + 1) 0 (int (length lvls) - 1) = n + 1"
      using n0 nL by (simp_all add: clamp_def)
    have mn: "min (int (length lvls) - 1) (n + 1) = n + 1" using nL by simp
    have a: "lod - real_of_int n \<noteq> 0" using False by simp
    have w2: "1 - (real_of_int (n + 1) - lod) = lod - real_of_int n" by simp
    have "sample_trilinear base lvls uv lod =
            bind_err (level_at lvls n) (\<lambda>lf.
            bind_err (sample_bilinear lf uv) (\<lambda>sampled_floor.
            bind_err (level_at lvls (n + 1)) (\<lambda>lc.
            bind_err (sample_bilinear lc uv) (\<lambda>sampled_ceil.
              Inr (Spectrum_add (Spectrum_scale sampled_floor (1 - (lod - real_of_int n)))
                                (Spectrum_scale sampled_ceil (lod - real_of_int n)))))))"
      unfolding sample_trilinear_def Let_def fl fl1 mx mn w2 using assms(1) a by simp
    moreover have "spec_trilinear base lvls uv lod =
            bind_err (level_at lvls n) (\<lambda>lf.
            bind_err (sample_bilinear lf uv) (\<lambda>sampled_floor.
            bind_err (level_at lvls (n + 1)) (\<lambda>lc.
            bind_err (sample_bilinear lc uv) (\<lambda>sampled_ceil.
              Inr (Spectrum_add (Spectrum_scale sampled_floor (1 - (lod - real_of_int n)))
                                (Spectrum_scale sampled_ceil (lod - real_of_int n)))))))"
      unfolding spec_trilinear_def Let_def n_def[symmetric] ce cl using assms(1) by simp
    ultimately show ?thesis by simp
  qed
qed

subsection \<open>The downsample step on sources with both dimensions at least two\<close>

lemma at_xy_constant:
  assumes "constant_image c src"
    and "0 \<le> x" "x < int (w src)" "0 \<le> y" "y < int (h src)"
  shows "at_xy src x y = Inr c"
proof -
  from assms(1) have wf: "wf_image src" by (simp add: constant_image_def)
  have idx: "nat y * w src + nat x < length (pixels src)"
    using wf assms(2-5) by (rule wf_image_index)
  then have "pixels src ! (nat y * w src + nat x) \<in> set (pixels src)" by simp
  then have "pixels src ! (nat y * w src + nat x) = c"
    using assms(1) by (simp add: constant_image_def)
  then show ?thesis using at_xy_in_range[OF wf assms(2-5)] by simp
qed

lemma Spectrum_add_scale_Suc:
  "Spectrum_add (Spectrum_add s d) (Spectrum_scale d (real n)) =
     Spectrum_add s (Spectrum_scale d (real (Suc n)))"
  by (cases s; cases d) (simp add: algebra_simps)

lemma Spectrum_add_scale_0: "Spectrum_add s (Spectrum_scale d 0) = s"
  by (cases s; cases d) simp

lemma Spectrum_zero_scale_scale:
  "Spectrum_add Spectrum_zero (Spectrum_scale (Spectrum_scale c (real m)) (real n)) =
     Spectrum_scale c (real (n * m))"
  by (cases c) (simp add: Spectrum_zero_def algebra_simps)

lemma Spectrum_div_scale: "n \<noteq> 0 \<Longrightarrow> Spectrum_div (Spectrum_scale c n) n = c"
  by (cases c) simp

text \<open>A loop whose every iteration adds \<open>d\<close> to the accumulator.\<close>

lemma fold_err_add:
  assumes "\<And>x s. x \<in> set xs \<Longrightarrow> f x s = Inr (Spectrum_add s d)"
  shows "fold_err f xs s = Inr (Spectrum_add s (Spectrum_scale d (real (length xs))))"
  using assms
proof (induction xs arbitrary: s)
  case Nil
  then show ?case by (simp add: Spectrum_add_scale_0)
next
  case (Cons x xs)
  have "f x s = Inr (Spectrum_add s d)" by (rule Cons.prems) simp
  moreover have "fold_err f xs (Spectrum_add s d) =
      Inr (Spectrum_add (Spectrum_add s d) (Spectrum_scale d (real (length xs))))"
    by (rule Cons.IH) (rule Cons.prems, simp)
  ultimately show ?case by (simp add: Spectrum_add_scale_Suc del: of_nat_Suc)
qed

lemma sum_block_succeeds:
  assumes "0 \<le> x0" "x0 + int nx \<le> int (w src)" "0 \<le> y0" "y0 + int ny \<le> int (h src)"
    and "wf_image src"
  shows "\<exists>s. sum_block src x0 y0 nx ny = Inr s"
  unfolding sum_block_def
proof (rule fold_err_succeeds)
  fix i s assume "i \<in> set [0..<nx]"
  then have i: "i < nx" by simp
  show "\<exists>s'. fold_err (\<lambda>j s. bind_err (at_xy src (x0 + int i) (y0 + int j))
                             (\<lambda>c. Inr (Spectrum_add s c))) [0..<ny] s = Inr s'"
  proof (rule fold_err_succeeds)
    fix j s assume "j \<in> set [0..<ny]"
    then have "j < ny" by simp
    with i assms(1-4) have "0 \<le> x0 + int i" "x0 + int i < int (w src)"
      "0 \<le> y0 + int j" "y0 + int j < int (h src)" by simp_all
    from at_xy_in_range[OF assms(5) this]
    show "\<exists>s'. bind_err (at_xy src (x0 + int i) (y0 + int j))
                       (\<lambda>c. Inr (Spectrum_add s c)) = Inr s'"
      by simp
  qed
qed

lemma sum_block_constant:
  assumes "constant_image c src"
    and "0 \<le> x0" "x0 + int nx \<le> int (w src)" "0 \<le> y0" "y0 + int ny \<le> int (h src)"
  shows "sum_block src x0 y0 nx ny = Inr (Spectrum_scale c (real (nx * ny)))"
proof -
  have inner: "fold_err (\<lambda>j s. bind_err (at_xy src (x0 + int i) (y0 + int j))
                            (\<lambda>c. Inr (Spectrum_add s c))) [0..<ny] s
               = Inr (Spectrum_add s (Spectrum_scale c (real ny)))"
    if "i \<in> set [0..<nx]" for i s
  proof -
    from that have i: "i < nx" by simp
    have "fold_err (\<lambda>j s. bind_err (at_xy src (x0 + int i) (y0 + int j))
                            (\<lambda>c. Inr (Spectrum_add s c))) [0..<ny] s
          = Inr (Spectrum_add s (Spectrum_scale c (real (length [0..<ny]))))"
    proof (rule fold_err_add)
      fix j s assume "j \<in> set [0..<ny]"
      then have "j < ny" by simp
      with i assms(2-5) have "at_xy src (x0 + int i) (y0 + int j) = Inr c"
        by (intro at_xy_constant[OF assms(1)]) simp_all
      then show "bind_err (at_xy src (x0 + int i) (y0 + int j)) (\<lambda>c. Inr (Spectrum_add s c))
                 = Inr (Spectrum_add s c)"
        by simp
    qed
    then show ?thesis by simp
  qed
  have "sum_block src x0 y0 nx ny =
          Inr (Spectrum_add Spectrum_zero
                 (Spectrum_scale (Spectrum_scale c (real ny)) (real (length [0..<nx]))))"
    unfolding sum_block_def by (rule fold_err_add) (rule inner)
  then show ?thesis by (simp add: Spectrum_zero_scale_scale)
qed

lemma filled_mono: "filled Q c dst K d \<Longrightarrow> K' \<subseteq> K \<Longrightarrow> filled Q c dst K' d"
  unfolding filled_def by blast

text \<open>
  One destination texel: when the block lies inside the source and the texel inside the
  destination, \<open>put_average\<close> succeeds, and over a constant source it writes \<open>c\<close>.
\<close>

lemma put_average_step:
  assumes rng: "0 \<le> x0" "x0 + int nx \<le> int (w src)" "0 \<le> y0" "y0 + int ny \<le> int (h src)"
    and xy: "x < w dst" "y < h dst"
    and n: "n = real (nx * ny)" "0 < nx * ny"
    and inv: "filled Q c dst K d"
    and wfd: "wf_image dst" and wfs: "wf_image src"
    and Q: "Q \<Longrightarrow> constant_image c src"
  shows "\<exists>d'. put_average src x0 y0 nx ny (int x) (int y) n d = Inr d' \<and>
              filled Q c dst (insert (x, y) K) d'"
proof -
  from inv have shape: "same_shape d dst" by (simp add: filled_def)
  then have dims: "w d = w dst" "h d = h dst" "length (pixels d) = w dst * h dst"
    using wfd by (simp_all add: same_shape_def wf_image_def)
  from sum_block_succeeds[OF rng wfs] obtain s where s: "sum_block src x0 y0 nx ny = Inr s"
    by blast
  define d' where "d' = d\<lparr>pixels := (pixels d)[y * w dst + x := Spectrum_div s n]\<rparr>"
  have idx: "y * w dst + x < length (pixels d)"
    using index_in_buffer[OF xy] dims by simp
  have put: "put_average src x0 y0 nx ny (int x) (int y) n d = Inr d'"
    using s xy dims idx by (simp add: put_average_def at_put_def d'_def)
  have shape': "same_shape d' dst"
    using shape by (simp add: same_shape_def d'_def)
  have val: "pixels d' ! (y * w dst + x) = c" if Q
  proof -
    from Q[OF that] have "sum_block src x0 y0 nx ny = Inr (Spectrum_scale c (real (nx * ny)))"
      using rng by (rule sum_block_constant)
    with s have "s = Spectrum_scale c n" by (simp add: n)
    moreover have "n \<noteq> 0" using n by simp
    ultimately have "Spectrum_div s n = c" by (simp add: Spectrum_div_scale)
    then show ?thesis using idx by (simp add: d'_def)
  qed
  have old: "pixels d' ! (y' * w dst + x') = c"
    if "Q" "(x', y') \<in> K" "x' < w dst" "y' < h dst" for x' y'
  proof (cases "y' * w dst + x' = y * w dst + x")
    case True
    then show ?thesis using val[OF that(1)] by simp
  next
    case False
    from inv that have "pixels d ! (y' * w dst + x') = c"
      unfolding filled_def by blast
    then show ?thesis using False by (simp add: d'_def)
  qed
  have "filled Q c dst (insert (x, y) K) d'"
    unfolding filled_def using shape' val old by auto
  with put show ?thesis by blast
qed

text \<open>A loop that extends the set of written coordinates by \<open>A x\<close> in iteration \<open>x\<close>.\<close>

lemma fold_err_cover:
  assumes "\<And>x s K. x \<in> set xs \<Longrightarrow> I K s \<Longrightarrow> \<exists>s'. f x s = Inr s' \<and> I (K \<union> A x) s'"
    and "I K s"
  shows "\<exists>s'. fold_err f xs s = Inr s' \<and> I (K \<union> (\<Union>x \<in> set xs. A x)) s'"
  using assms
proof (induction xs arbitrary: s K)
  case Nil
  then show ?case by simp
next
  case (Cons x xs)
  from Cons.prems(1)[of x K s] Cons.prems(2)
  obtain s1 where s1: "f x s = Inr s1" "I (K \<union> A x) s1" by auto
  have "\<exists>s'. fold_err f xs s1 = Inr s' \<and> I ((K \<union> A x) \<union> (\<Union>x \<in> set xs. A x)) s'"
    by (rule Cons.IH[OF _ s1(2)]) (rule Cons.prems(1), simp_all)
  then obtain s' where "fold_err f xs s1 = Inr s'"
    "I ((K \<union> A x) \<union> (\<Union>x \<in> set xs. A x)) s'" by blast
  moreover have "(K \<union> A x) \<union> (\<Union>x \<in> set xs. A x) = K \<union> (\<Union>x \<in> set (x # xs). A x)"
    by auto
  ultimately show ?case using s1(1) by simp
qed

lemma downsample_main_filled:
  assumes "2 * dW \<le> w src" "2 * dH \<le> h src" "dW \<le> w dst" "dH \<le> h dst"
    and "filled Q c dst K d" and "wf_image dst" and "wf_image src"
    and "Q \<Longrightarrow> constant_image c src"
  shows "\<exists>d'. downsample_main src (int dW) (int dH) d = Inr d' \<and>
              filled Q c dst (K \<union> {0..<dW} \<times> {0..<dH}) d'"
proof -
  have inner: "\<exists>s'. fold_err (\<lambda>y. put_average src (2 * int x) (2 * int y) 2 2 (int x) (int y) 4)
                       [0..<dH] s = Inr s' \<and>
                    filled Q c dst (K' \<union> {x} \<times> {0..<dH}) s'"
    if "x \<in> set [0..<dW]" "filled Q c dst K' s" for x s K'
  proof -
    from that(1) have x: "x < dW" by simp
    have "\<exists>s'. fold_err (\<lambda>y. put_average src (2 * int x) (2 * int y) 2 2 (int x) (int y) 4)
                  [0..<dH] s = Inr s' \<and>
               filled Q c dst (K' \<union> (\<Union>y \<in> set [0..<dH]. {(x, y)})) s'"
    proof (rule fold_err_cover[where I = "filled Q c dst", OF _ that(2)])
      fix y s K'' assume "y \<in> set [0..<dH]" and inv: "filled Q c dst K'' s"
      then have y: "y < dH" by simp
      have "\<exists>d'. put_average src (2 * int x) (2 * int y) 2 2 (int x) (int y) 4 s = Inr d' \<and>
                 filled Q c dst (insert (x, y) K'') d'"
        using x y assms(1-4)
        by (intro put_average_step[OF _ _ _ _ _ _ _ _ inv assms(6-8)]) simp_all
      then show "\<exists>s'. put_average src (2 * int x) (2 * int y) 2 2 (int x) (int y) 4 s = Inr s' \<and>
                      filled Q c dst (K'' \<union> {(x, y)}) s'"
        by simp
    qed
    moreover have "(\<Union>y \<in> set [0..<dH]. {(x, y)}) = {x} \<times> {0..<dH}" by auto
    ultimately show ?thesis by simp
  qed
  have "\<exists>d'. downsample_main src (int dW) (int dH) d = Inr d' \<and>
             filled Q c dst (K \<union> (\<Union>x \<in> set [0..<dW]. {x} \<times> {0..<dH})) d'"
    unfolding downsample_main_def nat_int
    by (rule fold_err_cover[where I = "filled Q c dst", OF inner assms(5)])
  moreover have "(\<Union>x \<in> set [0..<dW]. {x} \<times> {0..<dH}) = {0..<dW} \<times> {0..<dH}" by auto
  ultimately show ?thesis by simp
qed

lemma downsample_last_column_filled:
  assumes "2 * lx + 3 \<le> w src" "lx < w dst" "2 * h dst \<le> h src"
    and "filled Q c dst K d" and "wf_image dst" and "wf_image src"
    and "Q \<Longrightarrow> constant_image c src"
  shows "\<exists>d'. downsample_last_column src (int lx) d = Inr d' \<and>
              filled Q c dst (K \<union> {lx} \<times> {0..<h dst}) d'"
proof -
  from assms(4) have hd: "h d = h dst" by (simp add: filled_def same_shape_def)
  have "\<exists>d'. downsample_last_column src (int lx) d = Inr d' \<and>
             filled Q c dst (K \<union> (\<Union>j \<in> set [0..<h dst]. {(lx, j)})) d'"
    unfolding downsample_last_column_def hd
  proof (rule fold_err_cover[where I = "filled Q c dst", OF _ assms(4)])
    fix j s K' assume "j \<in> set [0..<h dst]" and inv: "filled Q c dst K' s"
    then have j: "j < h dst" by simp
    have "\<exists>d'. put_average src (int lx * 2) (int j * 2) 3 2 (int lx) (int j) 6 s = Inr d' \<and>
               filled Q c dst (insert (lx, j) K') d'"
      using j assms(1-3)
      by (intro put_average_step[OF _ _ _ _ _ _ _ _ inv assms(5-7)]) simp_all
    then show "\<exists>s'. put_average src (int lx * 2) (int j * 2) 3 2 (int lx) (int j) 6 s = Inr s' \<and>
                    filled Q c dst (K' \<union> {(lx, j)}) s'"
      by simp
  qed
  moreover have "(\<Union>j \<in> set [0..<h dst]. {(lx, j)}) = {lx} \<times> {0..<h dst}" by auto
  ultimately show ?thesis by simp
qed

lemma downsample_last_row_filled:
  assumes "2 * ly + 3 \<le> h src" "ly < h dst" "2 * w dst \<le> w src"
    and "filled Q c dst K d" and "wf_image dst" and "wf_image src"
    and "Q \<Longrightarrow> constant_image c src"
  shows "\<exists>d'. downsample_last_row src (int ly) d = Inr d' \<and>
              filled Q c dst (K \<union> {0..<w dst} \<times> {ly}) d'"
proof -
  from assms(4) have wd: "w d = w dst" by (simp add: filled_def same_shape_def)
  have "\<exists>d'. downsample_last_row src (int ly) d = Inr d' \<and>
             filled Q c dst (K \<union> (\<Union>i \<in> set [0..<w dst]. {(i, ly)})) d'"
    unfolding downsample_last_row_def wd
  proof (rule fold_err_cover[where I = "filled Q c dst", OF _ assms(4)])
    fix i s K' assume "i \<in> set [0..<w dst]" and inv: "filled Q c dst K' s"
    then have i: "i < w dst" by simp
    have "\<exists>d'. put_average src (int i * 2) (int ly * 2) 2 3 (int i) (int ly) 6 s = Inr d' \<and>
               filled Q c dst (insert (i, ly) K') d'"
      using i assms(1-3)
      by (intro put_average_step[OF _ _ _ _ _ _ _ _ inv assms(5-7)]) simp_all
    then show "\<exists>s'. put_average src (int i * 2) (int ly * 2) 2 3 (int i) (int ly) 6 s = Inr s' \<and>
                    filled Q c dst (K' \<union> {(i, ly)}) s'"
      by simp
  qed
  moreover have "(\<Union>i \<in> set [0..<w dst]. {(i, ly)}) = {0..<w dst} \<times> {ly}" by auto
  ultimately show ?thesis by simp
qed

lemma filled_all_constant:
  assumes "filled True c dst K d" and "wf_image dst" and "{0..<w dst} \<times> {0..<h dst} \<subseteq> K"
  shows "constant_image c d"
proof -
  from assms(1,2) have dims: "w d = w dst" "h d = h dst" "length (pixels d) = w dst * h dst"
    by (simp_all add: filled_def same_shape_def wf_image_def)
  have "p = c" if "p \<in> set (pixels d)" for p
  proof -
    from that obtain k where k: "k < w dst * h dst" "p = pixels d ! k"
      using dims(3) by (auto simp: in_set_conv_nth)
    then have wpos: "0 < w dst" by (cases "w dst") simp_all
    define x y where "x = k mod w dst" and "y = k div w dst"
    have x: "x < w dst" using wpos by (simp add: x_def)
    have y: "y < h dst" using k(1) by (simp add: y_def less_mult_imp_div_less mult.commute)
    have "(x, y) \<in> K" using x y assms(3) by auto
    with assms(1) x y have "pixels d ! (y * w dst + x) = c"
      unfolding filled_def by blast
    moreover have "y * w dst + x = k" by (simp add: x_def y_def)
    ultimately show ?thesis using k(2) by simp
  qed
  then show ?thesis using dims by (simp add: constant_image_def wf_image_def)
qed

text \<open>
  On a source with both dimensions at least two, \<open>downsample\<close> into a destination of the
  halved dimensions reads and writes inside the buffers, and a constant source gives a
  constant destination of the same colour.
\<close>

lemma downsample_filled:
  assumes ge2: "2 \<le> w src" "2 \<le> h src"
    and dims: "w dst = w src div 2" "h dst = h src div 2"
    and wfd: "wf_image dst" and wfs: "wf_image src"
    and Q: "Q \<Longrightarrow> constant_image c src"
  shows "\<exists>d. downsample src dst = Inr d \<and> same_shape d dst \<and> (Q \<longrightarrow> constant_image c d)"
proof -
  define ow where "ow \<longleftrightarrow> w src mod 2 = 1"
  define oh where "oh \<longleftrightarrow> h src mod 2 = 1"
  define lx where "lx = w dst - 1"
  define ly where "ly = h dst - 1"
  define dW where "dW = (if ow then lx else w dst)"
  define dH where "dH = (if oh then ly else h dst)"
  have pos: "1 \<le> w dst" "1 \<le> h dst" using ge2 dims by simp_all
  have mx: "w dst = max 1 (w src div 2)" "h dst = max 1 (h src div 2)"
    using pos dims by simp_all
  have ilx: "int (w dst) - 1 = int lx" and ily: "int (h dst) - 1 = int ly"
    using pos by (simp_all add: lx_def ly_def)
  have idW: "(if w src mod 2 = 1 then int (w dst) - 1 else int (w dst)) = int dW"
    and idH: "(if h src mod 2 = 1 then int (h dst) - 1 else int (h dst)) = int dH"
    using ilx ily by (simp_all add: dW_def dH_def ow_def oh_def)
  have half: "2 * w dst \<le> w src" "2 * h dst \<le> h src" using dims by simp_all
  have odd_w: "2 * lx + 3 \<le> w src" if ow
    using that pos dims unfolding ow_def lx_def by presburger
  have odd_h: "2 * ly + 3 \<le> h src" if oh
    using that pos dims unfolding oh_def ly_def by presburger
  have lxy: "lx < w dst" "ly < h dst" using pos by (simp_all add: lx_def ly_def)
  have bW: "2 * dW \<le> w src" "dW \<le> w dst" and bH: "2 * dH \<le> h src" "dH \<le> h dst"
    using half by (auto simp: dW_def dH_def lx_def ly_def)
  have start: "filled Q c dst {} dst" by (simp add: filled_def)
  define K1 where "K1 = {0..<dW} \<times> {0..<dH}"
  from downsample_main_filled[OF bW(1) bH(1) bW(2) bH(2) start wfd wfs Q]
  obtain d1 where d1: "downsample_main src (int dW) (int dH) dst = Inr d1" "filled Q c dst K1 d1"
    by (auto simp: K1_def)
  define K2 where "K2 = K1 \<union> (if ow then {lx} \<times> {0..<h dst} else {})"
  have "\<exists>d2. (if w src mod 2 = 1 then downsample_last_column src (int lx) d1 else Inr d1) = Inr d2 \<and>
             filled Q c dst K2 d2"
  proof (cases ow)
    case True
    from downsample_last_column_filled[OF odd_w[OF True] lxy(1) half(2) d1(2) wfd wfs Q]
    show ?thesis using True by (simp add: K2_def ow_def)
  next
    case False
    then show ?thesis using d1(2) by (simp add: K2_def ow_def)
  qed
  then obtain d2 where
    d2: "(if w src mod 2 = 1 then downsample_last_column src (int lx) d1 else Inr d1) = Inr d2"
      "filled Q c dst K2 d2"
    by blast
  define K3 where "K3 = K2 \<union> (if oh then {0..<w dst} \<times> {ly} else {})"
  have "\<exists>d3. (if h src mod 2 = 1 then downsample_last_row src (int ly) d2 else Inr d2) = Inr d3 \<and>
             filled Q c dst K3 d3"
  proof (cases oh)
    case True
    from downsample_last_row_filled[OF odd_h[OF True] lxy(2) half(1) d2(2) wfd wfs Q]
    show ?thesis using True by (simp add: K3_def oh_def)
  next
    case False
    then show ?thesis using d2(2) by (simp add: K3_def oh_def)
  qed
  then obtain d3 where
    d3: "(if h src mod 2 = 1 then downsample_last_row src (int ly) d2 else Inr d2) = Inr d3"
      "filled Q c dst K3 d3"
    by blast
  have "\<exists>d. (if w src mod 2 = 1 \<and> h src mod 2 = 1
             then put_average src (int lx * 2) (int ly * 2) 3 3 (int lx) (int ly) 9 d3
             else Inr d3) = Inr d \<and> filled Q c dst K3 d"
  proof (cases "ow \<and> oh")
    case True
    then have "\<exists>d. put_average src (int lx * 2) (int ly * 2) 3 3 (int lx) (int ly) 9 d3 = Inr d \<and>
                 filled Q c dst (insert (lx, ly) K3) d"
      using odd_w odd_h lxy
      by (intro put_average_step[OF _ _ _ _ _ _ _ _ d3(2) wfd wfs Q]) simp_all
    then obtain d where d: "put_average src (int lx * 2) (int ly * 2) 3 3 (int lx) (int ly) 9 d3 = Inr d"
      "filled Q c dst (insert (lx, ly) K3) d" by blast
    from d(2) have "filled Q c dst K3 d" by (rule filled_mono) auto
    with d(1) True show ?thesis by (auto simp: ow_def oh_def)
  next
    case False
    then show ?thesis using d3(2) by (auto simp: ow_def oh_def)
  qed
  then obtain d where
    d: "(if w src mod 2 = 1 \<and> h src mod 2 = 1
         then put_average src (int lx * 2) (int ly * 2) 3 3 (int lx) (int ly) 9 d3
         else Inr d3) = Inr d"
      "filled Q c dst K3 d"
    by blast
  have run: "downsample src dst = Inr d"
    unfolding downsample_unfold[OF mx] idW idH
    unfolding ilx ily
    by (simp only: d1(1) d2(1) d3(1) d(1) bind_err_Inr)
  have cover: "{0..<w dst} \<times> {0..<h dst} \<subseteq> K3"
  proof
    fix p assume p: "p \<in> {0..<w dst} \<times> {0..<h dst}"
    obtain x y where xy: "p = (x, y)" by (cases p)
    with p have x: "x < w dst" and y: "y < h dst" by simp_all
    show "p \<in> K3"
    proof (cases "x < dW \<and> y < dH")
      case True
      then show ?thesis by (simp add: xy K3_def K2_def K1_def)
    next
      case False
      then have "(ow \<and> x = lx) \<or> (oh \<and> y = ly)"
        using x y by (auto simp: dW_def dH_def lx_def ly_def split: if_splits)
      then show ?thesis using x y by (auto simp: xy K3_def K2_def)
    qed
  qed
  have "constant_image c d" if Q
    using d(2) wfd cover that by (auto intro: filled_all_constant)
  moreover have "same_shape d dst" using d(2) by (simp add: filled_def)
  ultimately show ?thesis using run by blast
qed

subsection \<open>The generator on base images whose dimensions have the same bit length\<close>

lemma floorlog2_half: "floorlog 2 a = Suc (Suc k) \<Longrightarrow> floorlog 2 (a div 2) = Suc k"
  using floorlog2_ge2[OF floorlog2_Suc_Suc, of a k] by simp

lemma fill_levels_balanced:
  assumes "halving_chain (w src) (h src) ls" and "\<forall>l \<in> set ls. wf_image l"
    and "floorlog 2 (w src) = Suc (length ls)" and "floorlog 2 (h src) = Suc (length ls)"
    and "Q \<Longrightarrow> constant_image c src" and "wf_image src"
  shows "\<exists>ls'. fill_levels src ls = Inr ls' \<and> list_all2 same_shape ls' ls \<and>
               (Q \<longrightarrow> (\<forall>l \<in> set ls'. constant_image c l))"
  using assms
proof (induction ls arbitrary: src)
  case Nil
  then show ?case by simp
next
  case (Cons l ls)
  from Cons.prems(3,4) have ge2: "2 \<le> w src" "2 \<le> h src"
    by (auto intro: floorlog2_Suc_Suc)
  from Cons.prems(1) have dims: "w l = max 1 (w src div 2)" "h l = max 1 (h src div 2)"
    and chain: "halving_chain (w l) (h l) ls"
    unfolding halving_chain.simps by blast+
  from dims ge2 have dims': "w l = w src div 2" "h l = h src div 2" by simp_all
  from Cons.prems(2) have wfl: "wf_image l" and wfls: "\<forall>x \<in> set ls. wf_image x" by simp_all
  from downsample_filled[OF ge2 dims' wfl Cons.prems(6) Cons.prems(5)]
  obtain d where d: "downsample src l = Inr d" "same_shape d l" "Q \<longrightarrow> constant_image c d"
    by blast
  have wfd: "wf_image d" using d(2) wfl by (rule same_shape_wf)
  from d(2) have wd: "w d = w l" "h d = h l" by (simp_all add: same_shape_def)
  have chain': "halving_chain (w d) (h d) ls" using chain wd by simp
  have fw: "floorlog 2 (w d) = Suc (length ls)"
    using floorlog2_half[of "w src" "length ls"] Cons.prems(3) wd dims' by simp
  have fh: "floorlog 2 (h d) = Suc (length ls)"
    using floorlog2_half[of "h src" "length ls"] Cons.prems(4) wd dims' by simp
  have "Q \<Longrightarrow> constant_image c d" using d(3) by simp
  from Cons.IH[OF chain' wfls fw fh this wfd]
  obtain ls' where ls': "fill_levels d ls = Inr ls'" "list_all2 same_shape ls' ls"
    "Q \<longrightarrow> (\<forall>l \<in> set ls'. constant_image c l)"
    by blast
  have "fill_levels src (l # ls) = Inr (d # ls')" using d(1) ls'(1) by simp
  moreover have "list_all2 same_shape (d # ls') (l # ls)" using d(2) ls'(2) by simp
  moreover have "Q \<longrightarrow> (\<forall>x \<in> set (d # ls'). constant_image c x)" using d(3) ls'(3) by simp
  ultimately show ?case by blast
qed

lemma allocate_levels_length:
  assumes "1 \<le> w base" and "1 \<le> h base" and "allocate_levels base = Inr ls"
  shows "floorlog 2 (max (w base) (h base)) = Suc (length ls)"
proof -
  from allocate_levels_schedule[OF assms(1,2)] assms(3)
  have "int (length ls) = \<lfloor>log 2 (real (max (w base) (h base)))\<rfloor>"
    by (auto simp: level_schedule_def)
  moreover have "0 < max (w base) (h base)" using assms(1) by (simp add: max_def)
  ultimately show ?thesis by (simp add: floorlog_def)
qed

text \<open>
  When \<open>floor(log2 w) = floor(log2 h)\<close>, in particular for every square base image, the
  generator returns the levels of the schedule, every pixel access is inside its buffer,
  and a base image of constant colour \<open>c\<close> gives levels of constant colour \<open>c\<close>.
\<close>

lemma generate_mipmap_balanced:
  assumes "1 \<le> w base" and "1 \<le> h base"
    and "floorlog 2 (w base) = floorlog 2 (h base)" and "wf_image base"
  shows "\<exists>ls. generate_mipmap base = Inr ls \<and> level_schedule base ls \<and>
              (constant_image c base \<longrightarrow> (\<forall>l \<in> set ls. constant_image c l))"
proof -
  from allocate_levels_schedule[OF assms(1,2)] obtain ls0 where
    alloc: "allocate_levels base = Inr ls0" and sched: "level_schedule base ls0"
    and chain: "halving_chain (w base) (h base) ls0" and wf: "\<forall>l \<in> set ls0. wf_image l"
    by blast
  have len: "floorlog 2 (max (w base) (h base)) = Suc (length ls0)"
    using assms(1,2) alloc by (rule allocate_levels_length)
  have fw: "floorlog 2 (w base) = Suc (length ls0)" and fh: "floorlog 2 (h base) = Suc (length ls0)"
    using len assms(3) by (simp_all add: max_def split: if_splits)
  from fill_levels_balanced[OF chain wf fw fh _ assms(4), of "constant_image c base" c]
  obtain ls where ls: "fill_levels base ls0 = Inr ls" "list_all2 same_shape ls ls0"
    "constant_image c base \<longrightarrow> (\<forall>l \<in> set ls. constant_image c l)"
    by blast
  have "generate_mipmap base = Inr ls" by (simp add: generate_mipmap_def alloc ls(1))
  moreover have "level_schedule base ls" using sched ls(2) by (rule level_schedule_same_shape)
  ultimately show ?thesis using ls(3) by blast
qed

subsection \<open>The generator on the other base images\<close>

lemma fold_err_Inr_step:
  assumes "fold_err f xs s = Inr s'" and "x \<in> set xs"
  shows "\<exists>s0 s1. f x s0 = Inr s1"
  using assms
proof (induction xs arbitrary: s)
  case Nil
  then show ?case by simp
next
  case (Cons y ys)
  from Cons.prems(1) obtain s1 where s1: "f y s = Inr s1" "fold_err f ys s1 = Inr s'"
    by (auto simp: bind_err_eq_Inr)
  show ?case
  proof (cases "x = y")
    case True
    with s1(1) show ?thesis by blast
  next
    case False
    with Cons.prems(2) have "x \<in> set ys" by simp
    from Cons.IH[OF s1(2) this] show ?thesis .
  qed
qed

text \<open>A block sum that succeeds has read only texels inside the source.\<close>

lemma sum_block_Inr_range:
  assumes "sum_block src x0 y0 nx ny = Inr s" and "i < nx" and "j < ny"
  shows "0 \<le> x0 + int i \<and> x0 + int i < int (w src) \<and>
         0 \<le> y0 + int j \<and> y0 + int j < int (h src)"
proof -
  from assms(2) have "i \<in> set [0..<nx]" by simp
  from fold_err_Inr_step[OF assms(1)[unfolded sum_block_def] this]
  obtain s0 s1 where "fold_err (\<lambda>j s. bind_err (at_xy src (x0 + int i) (y0 + int j))
                                   (\<lambda>c. Inr (Spectrum_add s c))) [0..<ny] s0 = Inr s1"
    by blast
  moreover from assms(3) have "j \<in> set [0..<ny]" by simp
  ultimately obtain s2 s3 where
    "bind_err (at_xy src (x0 + int i) (y0 + int j)) (\<lambda>c. Inr (Spectrum_add s2 c)) = Inr s3"
    using fold_err_Inr_step by fast
  then show ?thesis by (auto simp: bind_err_eq_Inr at_xy_def split: if_splits)
qed

text \<open>
  A source of width 1 or of height 1: the three-wide block of the odd dimension does not
  fit, and \<open>downsample\<close> reads outside the source.
\<close>

lemma downsample_thin:
  assumes thin: "w src = 1 \<or> h src = 1"
    and dims: "w dst = max 1 (w src div 2)" "h dst = max 1 (h src div 2)"
  shows "downsample src dst = Inl OutOfRange"
proof (cases "downsample src dst")
  case (Inl e)
  then show ?thesis using downsample_Inl[OF Inl dims] by simp
next
  case (Inr d)
  then obtain d1 d2 d3 where
    d1: "downsample_main src (if w src mod 2 = 1 then int (w dst) - 1 else int (w dst))
           (if h src mod 2 = 1 then int (h dst) - 1 else int (h dst)) dst = Inr d1"
    and d2: "(if w src mod 2 = 1 then downsample_last_column src (int (w dst) - 1) d1 else Inr d1) = Inr d2"
    and d3: "(if h src mod 2 = 1 then downsample_last_row src (int (h dst) - 1) d2 else Inr d2) = Inr d3"
    unfolding downsample_unfold[OF dims] by (elim bind_err_InrE)
  have s1: "same_shape d1 dst" using d1 by (rule downsample_main_Inr)
  have pos: "1 \<le> w dst" "1 \<le> h dst" using dims by simp_all
  from thin have False
  proof
    assume w1: "w src = 1"
    then have col: "downsample_last_column src 0 d1 = Inr d2"
      using d2 dims by simp
    have "0 \<in> set [0..<h d1]" using s1 pos by (simp add: same_shape_def)
    from fold_err_Inr_step[OF col[unfolded downsample_last_column_def] this]
    obtain s0 s' where "put_average src 0 0 3 2 0 0 6 s0 = Inr s'" by auto
    then obtain s where "sum_block src 0 0 3 2 = Inr s"
      by (auto simp: put_average_def bind_err_eq_Inr)
    from sum_block_Inr_range[OF this, of 1 0] w1 show False by simp
  next
    assume h1: "h src = 1"
    have s2: "same_shape d2 dst"
    proof (cases "w src mod 2 = 1")
      case True
      with d2 have "same_shape d2 d1" by (simp add: downsample_last_column_Inr)
      then show ?thesis using s1 by (rule same_shape_trans)
    next
      case False
      with d2 s1 show ?thesis by simp
    qed
    from h1 have row: "downsample_last_row src 0 d2 = Inr d3"
      using d3 dims by simp
    have "0 \<in> set [0..<w d2]" using s2 pos by (simp add: same_shape_def)
    from fold_err_Inr_step[OF row[unfolded downsample_last_row_def] this]
    obtain s0 s' where "put_average src 0 0 2 3 0 0 6 s0 = Inr s'" by auto
    then obtain s where "sum_block src 0 0 2 3 = Inr s"
      by (auto simp: put_average_def bind_err_eq_Inr)
    from sum_block_Inr_range[OF this, of 0 1] h1 show False by simp
  qed
  then show ?thesis ..
qed

lemma fill_levels_unbalanced:
  assumes "halving_chain (w src) (h src) ls" and "\<forall>l \<in> set ls. wf_image l"
    and "1 \<le> w src" and "1 \<le> h src"
    and "floorlog 2 (max (w src) (h src)) = Suc (length ls)"
    and "floorlog 2 (w src) \<noteq> floorlog 2 (h src)" and "wf_image src"
  shows "fill_levels src ls = Inl OutOfRange"
  using assms
proof (induction ls arbitrary: src)
  case Nil
  then have "max (w src) (h src) = 1"
    by (intro floorlog2_eq_1) (simp_all add: max_def)
  with Nil.prems(3,4) have "w src = 1" "h src = 1" by (simp_all add: max_def split: if_splits)
  with Nil.prems(6) show ?case by simp
next
  case (Cons l ls)
  from Cons.prems(1) have dims: "w l = max 1 (w src div 2)" "h l = max 1 (h src div 2)"
    and chain: "halving_chain (w l) (h l) ls"
    unfolding halving_chain.simps by blast+
  show ?case
  proof (cases "w src = 1 \<or> h src = 1")
    case True
    from downsample_thin[OF True dims] show ?thesis by simp
  next
    case False
    with Cons.prems(3,4) have ge2: "2 \<le> w src" "2 \<le> h src" by auto
    with dims have dims': "w l = w src div 2" "h l = h src div 2" by simp_all
    from Cons.prems(2) have wfl: "wf_image l" and wfls: "\<forall>x \<in> set ls. wf_image x" by simp_all
    from downsample_filled[OF ge2 dims' wfl Cons.prems(7), of False]
    obtain d where d: "downsample src l = Inr d" "same_shape d l" by blast
    have wfd: "wf_image d" using d(2) wfl by (rule same_shape_wf)
    from d(2) dims' have wd: "w d = w src div 2" "h d = h src div 2"
      by (simp_all add: same_shape_def)
    have chain': "halving_chain (w d) (h d) ls" using chain d(2) by (simp add: same_shape_def)
    have pos: "1 \<le> w d" "1 \<le> h d" using ge2 wd by simp_all
    have m2: "2 \<le> max (w src) (h src)" using ge2 by simp
    have "max (w d) (h d) = max (w src) (h src) div 2"
      using max_halves[OF m2] wd ge2 by simp
    then have len: "floorlog 2 (max (w d) (h d)) = Suc (length ls)"
      using floorlog2_ge2[OF m2] Cons.prems(5) by simp
    have "floorlog 2 (w d) \<noteq> floorlog 2 (h d)"
      using floorlog2_ge2[OF ge2(1)] floorlog2_ge2[OF ge2(2)] Cons.prems(6) wd by simp
    from Cons.IH[OF chain' wfls pos len this wfd] d(1) show ?thesis by simp
  qed
qed

text \<open>
  The generator reads a pixel outside its buffer exactly when \<open>floor(log2 w)\<close> and
  \<open>floor(log2 h)\<close> differ, that is, when one dimension reaches 1 before the other.
\<close>

lemma generate_mipmap_unbalanced:
  assumes "1 \<le> w base" and "1 \<le> h base"
    and "floorlog 2 (w base) \<noteq> floorlog 2 (h base)" and "wf_image base"
  shows "generate_mipmap base = Inl OutOfRange"
proof -
  from allocate_levels_schedule[OF assms(1,2)] obtain ls0 where
    alloc: "allocate_levels base = Inr ls0"
    and chain: "halving_chain (w base) (h base) ls0" and wf: "\<forall>l \<in> set ls0. wf_image l"
    by blast
  have len: "floorlog 2 (max (w base) (h base)) = Suc (length ls0)"
    using assms(1,2) alloc by (rule allocate_levels_length)
  from fill_levels_unbalanced[OF chain wf assms(1,2) len assms(3,4)]
  show ?thesis by (simp add: generate_mipmap_def alloc)
qed

lemma generate_mipmap_succeeds_iff:
  assumes "1 \<le> w base" and "1 \<le> h base" and "wf_image base"
  shows "(\<exists>ls. generate_mipmap base = Inr ls) \<longleftrightarrow> floorlog 2 (w base) = floorlog 2 (h base)"
proof
  assume ok: "\<exists>ls. generate_mipmap base = Inr ls"
  show "floorlog 2 (w base) = floorlog 2 (h base)"
  proof (rule ccontr)
    assume "floorlog 2 (w base) \<noteq> floorlog 2 (h base)"
    from generate_mipmap_unbalanced[OF assms(1,2) this assms(3)] ok show False by simp
  qed
next
  assume "floorlog 2 (w base) = floorlog 2 (h base)"
  from generate_mipmap_balanced[OF assms(1,2) this assms(3)]
  show "\<exists>ls. generate_mipmap base = Inr ls" by blast
qed

subsection \<open>Images with a zero dimension\<close>

text \<open>The guard of \<open>evaluate\<close>: the image with both dimensions zero gives the zero colour.\<close>

lemma Image_evaluate_empty:
  "w (image_hdr t) = 0 \<Longrightarrow> h (image_hdr t) = 0 \<Longrightarrow> Image_evaluate t uv lod = Inr Spectrum_zero"
  by (simp add: Image_evaluate_def)

text \<open>
  On an image with a zero dimension the nearest and the bilinear sampler address the
  coordinate \<open>-1\<close>, whatever \<open>uv\<close> is.
\<close>

lemma sample_nearest_zero_dimension:
  assumes "w img = 0 \<or> h img = 0"
  shows "sample_nearest img uv = Inl OutOfRange"
proof -
  obtain ux uy where uv: "uv = Vec2 ux uy" by (cases uv)
  have nn: "0 \<le> clamp ux 0 1" "0 \<le> clamp uy 0 1" by (simp_all add: clamp_def)
  then have "0 \<le> \<lfloor>real (w img) * clamp ux 0 1\<rfloor>" "0 \<le> \<lfloor>real (h img) * clamp uy 0 1\<rfloor>"
    by simp_all
  then show ?thesis using assms by (auto simp: uv at_xy_def Let_def)
qed

lemma bilinear_step_zero_dimension:
  assumes "w img = 0 \<or> h img = 0"
  shows "bilinear_step img iw ih offset res = Inl OutOfRange"
  using assms by (auto simp: bilinear_step_def clamp_def at_xy_def)

lemma sample_bilinear_zero_dimension:
  assumes "w img = 0 \<or> h img = 0"
  shows "sample_bilinear img uv = Inl OutOfRange"
proof -
  obtain ux uy where uv: "uv = Vec2 ux uy" by (cases uv)
  define iw ih where "iw = float_to_int (real (w img) * ux)" and "ih = float_to_int (real (h img) * uy)"
  define i :: nat where
    "i = (if real (w img) * ux - real_of_int iw > 1 / 2 then 2 else 0) +
         (if real (h img) * uy - real_of_int ih < 1 / 2 then 1 else 0)"
  have "i < 4" by (simp add: i_def)
  from OFFSETS_cases[OF this] obtain o1 o2 o3 o4 where "OFFSETS ! i = [o1, o2, o3, o4]" by blast
  then have "fold_err (bilinear_step img iw ih) (OFFSETS ! i) Spectrum_zero = Inl OutOfRange"
    by (simp add: bilinear_step_zero_dimension[OF assms])
  moreover have "sample_bilinear img uv = fold_err (bilinear_step img iw ih) (OFFSETS ! i) Spectrum_zero"
    by (simp add: uv i_def iw_def ih_def Let_def)
  ultimately show ?thesis by simp
qed

lemma Image_evaluate_one_zero:
  assumes "w (image_hdr t) = 0 \<or> h (image_hdr t) = 0"
    and "\<not> (w (image_hdr t) = 0 \<and> h (image_hdr t) = 0)"
    and "sampler t \<noteq> trilinear \<or> lod \<le> 0"
  shows "Image_evaluate t uv lod = Inl OutOfRange"
  using assms(2,3) sample_nearest_zero_dimension[OF assms(1)] sample_bilinear_zero_dimension[OF assms(1)]
  by (cases "sampler t") (auto simp: Image_evaluate_def sample_trilinear_def)

end
